theory Spec2Isabelle
  imports Main "HOL-Library.Word"
begin

unbundle bit_operations_syntax

section \<open>Ejercicio 3: the \<open>mycall\<close> system call and its user-space test\<close>

text \<open>
  \<^verbatim>\<open>SYSCALL_DEFINE1(mycall, int, i)\<close> takes a C \<open>int\<close> and returns a \<open>long\<close>.
  The sum \<open>i + 10\<close> is computed in \<open>int\<close> (32 bits, the kernel is built with wrapping
  signed arithmetic) and then widened to \<open>long\<close> with sign extension. The kernel log is
  threaded through as a list; a \<open>printk\<close> line is kept as its format string and its
  \<open>%d\<close> argument.
\<close>

type_synonym c_int = "32 word"
type_synonym c_long = "64 word"

datatype klog = KernInfo string int

definition INT_MAX :: int where
  "INT_MAX = 2147483647"

definition newline :: char where
  "newline = CHR 0x0A"

definition sys_mycall :: "c_int \<Rightarrow> klog list \<Rightarrow> c_long \<times> klog list" where
  "sys_mycall i klg =
     (scast (i + 10),
      klg @ [KernInfo (''Hola desde el PapuKernel!! Recibi: %d'' @ [newline]) (sint i)])"

text \<open>
  The user-space test calls \<^verbatim>\<open>syscall(__NR_mycall, 50)\<close>. Entry 470 of the system call
  table is \<open>sys_mycall\<close> (the table itself is edited in the kernel tree, outside this
  repository; the number is the one the test defines). The C library's \<open>syscall\<close>
  wrapper turns a kernel result between -4095 and -1 into -1, and every other number is
  answered by the kernel with \<open>-ENOSYS\<close>, which the wrapper also turns into -1.
\<close>

definition NR_mycall :: int where
  "NR_mycall = 470"

definition syscall :: "int \<Rightarrow> c_long \<Rightarrow> klog list \<Rightarrow> c_long \<times> klog list" where
  "syscall nr arg klg =
     (if nr = NR_mycall
      then (case sys_mycall (ucast arg) klg of
              (r, klg') \<Rightarrow> (if - 4095 \<le> sint r \<and> sint r \<le> - 1 then - 1 else r, klg'))
      else (- 1, klg))"

text \<open>What the test prints: plain text, or a format string with its \<open>%ld\<close> argument.\<close>

datatype printed = Text string | TextLd string int

definition prueba_main :: "klog list \<Rightarrow> int \<times> printed list \<times> klog list" where
  "prueba_main klg =
     (let out1 = [Text (''--- Iniciando prueba de Syscall ---'' @ [newline])] in
      case syscall NR_mycall 50 klg of
        (res, klg') \<Rightarrow>
          let out2 = out1 @ [TextLd (''Resultado devuelto por el kernel: %ld'' @ [newline]) (sint res)];
              out3 = (if res = 60
                      then out2 @ [Text (''Funko el kernel'' @ [newline])]
                      else out2 @ [Text (''No funko el kernel'' @ [newline])])
          in (0, out3, klg'))"


section \<open>Ejercicio 2: the file copier\<close>

subsection \<open>The operating system the copier talks to\<close>

text \<open>
  The copier is a sequence of \<open>open\<close>, \<open>read\<close>, \<open>write\<close> and \<open>close\<close> calls on
  file descriptors. The world it runs in is a record: the files (a file has its names, so
  two paths can refer to the same file, its bytes and its permission bits), the table of
  open descriptors, the descriptor limit, the process's umask, \<open>errno\<close>, and the record
  of every call the process has made. What the operating system is free to do (refuse an
  open, fail a read or deliver fewer bytes, fail a write or take fewer bytes) is a script
  in the world: each call consumes the head of its script, and an empty script lets the
  call run normally.
\<close>

type_synonym byte = "8 word"
type_synonym path = string

record inode =
  links :: "path list"
  data :: "byte list"
  perm :: "32 word"

record ofd =
  ino :: nat
  pos :: nat
  oflags :: "32 word"

datatype rd_fault = RdErr int | RdShort nat
datatype wr_fault = WrErr int | WrShort nat

datatype event =
    EvOpen path "32 word" int
  | EvRead int nat int
  | EvWrite int nat int
  | EvClose int int
  | EvPerror string int
  | EvPrintf string

record world =
  files :: "inode list"
  fdt :: "int \<Rightarrow> ofd option"
  nofile :: int
  umask :: "32 word"
  errno :: int
  open_faults :: "int option list"
  read_faults :: "rd_fault list"
  write_faults :: "wr_fault list"
  trace :: "event list"

text \<open>The constants of \<^verbatim>\<open>fcntl.h\<close> and \<^verbatim>\<open>errno.h\<close> on Linux.\<close>

definition O_RDONLY :: "32 word" where "O_RDONLY = 0"
definition O_WRONLY :: "32 word" where "O_WRONLY = 1"
definition O_ACCMODE :: "32 word" where "O_ACCMODE = 3"
definition O_CREAT :: "32 word" where "O_CREAT = 64"
definition O_TRUNC :: "32 word" where "O_TRUNC = 512"

definition ENOENT :: int where "ENOENT = 2"
definition EBADF :: int where "EBADF = 9"
definition EMFILE :: int where "EMFILE = 24"

text \<open>A path refers to the first file that has it among its names.\<close>

fun resolve :: "inode list \<Rightarrow> path \<Rightarrow> nat option" where
  "resolve [] p = None"
| "resolve (f # fs) p = (if p \<in> set (links f) then Some 0 else map_option Suc (resolve fs p))"

text \<open>The lowest free descriptor below the limit.\<close>

definition alloc_fd :: "world \<Rightarrow> int option" where
  "alloc_fd w = List.find (\<lambda>i. fdt w i = None) [0..nofile w - 1]"

text \<open>What the head of a script says about the call that consumes it.\<close>

definition open_err :: "int option list \<Rightarrow> int option" where
  "open_err sc = (case sc of [] \<Rightarrow> None | x # _ \<Rightarrow> x)"

definition read_err :: "rd_fault list \<Rightarrow> int option" where
  "read_err sc = (case sc of RdErr e # _ \<Rightarrow> Some e | _ \<Rightarrow> None)"

definition read_len :: "rd_fault list \<Rightarrow> nat \<Rightarrow> nat" where
  "read_len sc full = (case sc of RdShort k # _ \<Rightarrow> min full (max 1 k) | _ \<Rightarrow> full)"

definition write_err :: "wr_fault list \<Rightarrow> int option" where
  "write_err sc = (case sc of WrErr e # _ \<Rightarrow> Some e | _ \<Rightarrow> None)"

definition write_len :: "wr_fault list \<Rightarrow> nat \<Rightarrow> nat" where
  "write_len sc count = (case sc of WrShort k # _ \<Rightarrow> min count k | _ \<Rightarrow> count)"

text \<open>
  \<open>open(p, flags, m)\<close>: fails if the script says so, if no descriptor is free, or if the
  file is missing and \<open>O_CREAT\<close> is not set. A missing file with \<open>O_CREAT\<close> is created
  empty with the permission bits \<open>m AND NOT umask\<close>; an existing file keeps its
  permission bits and is emptied when \<open>O_TRUNC\<close> is set. The new descriptor starts at
  offset 0.
\<close>

definition sys_open :: "path \<Rightarrow> 32 word \<Rightarrow> 32 word \<Rightarrow> world \<Rightarrow> int \<times> world" where
  "sys_open p flags m w =
     (let w0 = w\<lparr>open_faults := tl (open_faults w)\<rparr>;
          r = (case open_err (open_faults w) of
                 Some e \<Rightarrow> (- 1, w0\<lparr>errno := e\<rparr>)
               | None \<Rightarrow>
                 (case alloc_fd w0 of
                    None \<Rightarrow> (- 1, w0\<lparr>errno := EMFILE\<rparr>)
                  | Some fd \<Rightarrow>
                    (case resolve (files w0) p of
                       None \<Rightarrow>
                         if flags AND O_CREAT = 0 then (- 1, w0\<lparr>errno := ENOENT\<rparr>)
                         else (fd, w0\<lparr>files := files w0 @
                                          [\<lparr>links = [p], data = [], perm = m AND NOT (umask w0)\<rparr>],
                                        fdt := (fdt w0)(fd \<mapsto>
                                          \<lparr>ino = length (files w0), pos = 0, oflags = flags\<rparr>)\<rparr>)
                     | Some i \<Rightarrow>
                         (fd, w0\<lparr>files := (if flags AND O_TRUNC = 0 then files w0
                                           else (files w0)[i := (files w0 ! i)\<lparr>data := []\<rparr>]),
                                  fdt := (fdt w0)(fd \<mapsto> \<lparr>ino = i, pos = 0, oflags = flags\<rparr>)\<rparr>))))
      in (fst r, (snd r)\<lparr>trace := trace w @ [EvOpen p flags (fst r)]\<rparr>))"

text \<open>
  \<open>read(fd, buf, count)\<close>: on a descriptor that is not open for reading, \<open>EBADF\<close>.
  Otherwise the script may fail the call; if it does not, the call delivers the bytes at
  the descriptor's offset: as many as \<open>count\<close> and the file allow, or fewer (but at least
  one while bytes remain) when the script shortens the read. The result is the count, the
  bytes now at the start of the buffer, and the world with the offset advanced.
\<close>

definition sys_read :: "int \<Rightarrow> nat \<Rightarrow> world \<Rightarrow> int \<times> byte list \<times> world" where
  "sys_read fd count w =
     (let r = (case fdt w fd of
                 None \<Rightarrow> (- 1, [], w\<lparr>errno := EBADF\<rparr>)
               | Some f \<Rightarrow>
                   if oflags f AND O_ACCMODE = O_WRONLY \<or> length (files w) \<le> ino f
                   then (- 1, [], w\<lparr>errno := EBADF\<rparr>)
                   else
                     let w0 = w\<lparr>read_faults := tl (read_faults w)\<rparr>;
                         rest = drop (pos f) (data (files w ! ino f));
                         n = read_len (read_faults w) (min count (length rest))
                     in (case read_err (read_faults w) of
                           Some e \<Rightarrow> (- 1, [], w0\<lparr>errno := e\<rparr>)
                         | None \<Rightarrow>
                             (int n, take n rest,
                              w0\<lparr>fdt := (fdt w0)(fd \<mapsto> f\<lparr>pos := pos f + n\<rparr>)\<rparr>)))
      in case r of (res, buf, w1) \<Rightarrow> (res, buf, w1\<lparr>trace := trace w @ [EvRead fd count res]\<rparr>))"

text \<open>Writing \<open>bs\<close> into a file at an offset: a gap past the end is filled with zeros.\<close>

definition write_at :: "byte list \<Rightarrow> nat \<Rightarrow> byte list \<Rightarrow> byte list" where
  "write_at d off bs = take off d @ replicate (off - length d) 0 @ bs @ drop (off + length bs) d"

text \<open>
  \<open>write(fd, buf, count)\<close>: on a descriptor that is not open for writing, \<open>EBADF\<close>.
  Otherwise the script may fail the call or make it take only the first \<open>k\<close> bytes; if it
  does neither, the first \<open>count\<close> bytes of the buffer go into the file at the
  descriptor's offset, which advances by as much.
\<close>

definition sys_write :: "int \<Rightarrow> byte list \<Rightarrow> nat \<Rightarrow> world \<Rightarrow> int \<times> world" where
  "sys_write fd buf count w =
     (let r = (case fdt w fd of
                 None \<Rightarrow> (- 1, w\<lparr>errno := EBADF\<rparr>)
               | Some f \<Rightarrow>
                   if oflags f AND O_ACCMODE = O_RDONLY \<or> length (files w) \<le> ino f
                   then (- 1, w\<lparr>errno := EBADF\<rparr>)
                   else
                     let w0 = w\<lparr>write_faults := tl (write_faults w)\<rparr>;
                         n = write_len (write_faults w) count
                     in (case write_err (write_faults w) of
                           Some e \<Rightarrow> (- 1, w0\<lparr>errno := e\<rparr>)
                         | None \<Rightarrow>
                             (int n,
                              w0\<lparr>files := (files w0)[ino f := (files w0 ! ino f)
                                             \<lparr>data := write_at (data (files w0 ! ino f)) (pos f) (take n buf)\<rparr>],
                                 fdt := (fdt w0)(fd \<mapsto> f\<lparr>pos := pos f + n\<rparr>)\<rparr>)))
      in (fst r, (snd r)\<lparr>trace := trace w @ [EvWrite fd count (fst r)]\<rparr>))"

definition sys_close :: "int \<Rightarrow> world \<Rightarrow> int \<times> world" where
  "sys_close fd w =
     (let r = (case fdt w fd of
                 None \<Rightarrow> (- 1, w\<lparr>errno := EBADF\<rparr>)
               | Some f \<Rightarrow> (0, w\<lparr>fdt := (fdt w)(fd := None)\<rparr>))
      in (fst r, (snd r)\<lparr>trace := trace w @ [EvClose fd (fst r)]\<rparr>))"

text \<open>
  \<open>perror\<close> prints its message with the text of the current \<open>errno\<close> on the standard
  error stream, and \<open>printf\<close> prints on the standard output stream. The model keeps both
  lines in the record of calls and goes no further: it does not follow a line through
  descriptor 2 or 1 into a file. Where descriptor 2 is not a stream the caller attached but
  a descriptor the program itself holds open for writing (the process was started with
  descriptor 2 closed, so that \<open>open\<close> handed it out), the bytes of that file after a
  \<open>perror\<close> are therefore not given by the model, and the statements below about the
  bytes of the program's own files are made only for runs, or parts of runs, without a
  \<open>perror\<close> while such a descriptor is open. Every \<open>printf\<close> of the program is made while it
  holds no descriptor of its own.
\<close>

definition perror :: "string \<Rightarrow> world \<Rightarrow> world" where
  "perror msg w = w\<lparr>trace := trace w @ [EvPerror msg (errno w)]\<rparr>"

definition printf :: "string \<Rightarrow> world \<Rightarrow> world" where
  "printf s w = w\<lparr>trace := trace w @ [EvPrintf s]\<rparr>"


subsection \<open>The program\<close>

definition BUFFER_SIZE :: nat where
  "BUFFER_SIZE = 1024"

text \<open>
  The \<open>while\<close> loop of \<open>main\<close>. It ends in one of two ways: the process has called
  \<open>exit\<close> inside the loop (\<open>Exited\<close>, with the status), or the loop condition has failed
  (\<open>Finished\<close>, with the last value of \<open>bytes_read\<close>). The buffer is modelled by its
  filled prefix, the only part the program passes on.
\<close>

datatype loop_end = Exited int world | Finished int world

partial_function (option) copy_loop :: "int \<Rightarrow> int \<Rightarrow> world \<Rightarrow> loop_end option" where
  "copy_loop fd_src fd_dest w =
     (case sys_read fd_src BUFFER_SIZE w of
        (bytes_read, buffer, w1) \<Rightarrow>
          if bytes_read > 0 then
            (case sys_write fd_dest buffer (nat bytes_read) w1 of
               (bytes_written, w2) \<Rightarrow>
                 if bytes_written \<noteq> bytes_read then
                   Some (Exited 1
                     (snd (sys_close fd_dest (snd (sys_close fd_src (perror ''Error al escribir'' w2))))))
                 else copy_loop fd_src fd_dest w2)
          else Some (Finished bytes_read w1))"

declare copy_loop.simps [code]

text \<open>The name the usage message prints for \<open>argv[0]\<close>.\<close>

definition argv0 :: "string list \<Rightarrow> string" where
  "argv0 argv = (case argv of [] \<Rightarrow> ''(null)'' | a # _ \<Rightarrow> a)"

text \<open>
  \<open>main\<close> returns the exit status and the world at exit; \<open>None\<close> is a run that never
  ends. \<open>argc\<close> is the length of \<open>argv\<close>.
\<close>

definition main :: "string list \<Rightarrow> world \<Rightarrow> (int \<times> world) option" where
  "main argv w =
     (if length argv \<noteq> 3 then
        Some (1, printf (''Uso correcto: '' @ argv0 argv @
                          '' <archivo_origen> <archivo_destino>'' @ [newline]) w)
      else
        let source_file = argv ! 1;
            dest_file = argv ! 2
        in case sys_open source_file O_RDONLY 0 w of
             (fd_src, w1) \<Rightarrow>
               if fd_src = - 1 then
                 Some (1, perror ''Error al abrir archivo origen'' w1)
               else
                 (case sys_open dest_file (O_WRONLY OR O_CREAT OR O_TRUNC) 420 w1 of
                    (fd_dest, w2) \<Rightarrow>
                      if fd_dest = - 1 then
                        Some (1, snd (sys_close fd_src (perror ''Error al crear archivo destino'' w2)))
                      else
                        (case copy_loop fd_src fd_dest w2 of
                           None \<Rightarrow> None
                         | Some (Exited status w3) \<Rightarrow> Some (status, w3)
                         | Some (Finished bytes_read w3) \<Rightarrow>
                             let w4 = (if bytes_read = - 1 then perror ''Error al leer'' w3 else w3);
                                 w5 = snd (sys_close fd_src w4);
                                 w6 = snd (sys_close fd_dest w5);
                                 w7 = printf (''Copia completada exitosamente.'' @ [newline]) w6
                             in Some (0, w7))))"


subsection \<open>What a run leaves in the record of calls\<close>

text \<open>
  The calls one run of the loop can make: rounds of a read that delivers \<open>n > 0\<close> bytes and
  a write that takes all \<open>n\<close>, ended either by a read that delivers nothing or fails (the
  loop is left with that \<open>bytes_read\<close>), or by a write whose count differs, followed by
  the error report and the two closes (the process has exited).
\<close>

inductive loop_trace :: "int \<Rightarrow> int \<Rightarrow> event list \<Rightarrow> int option \<Rightarrow> bool"
  for fd_src fd_dest where
  stop: "r \<le> 0 \<Longrightarrow> loop_trace fd_src fd_dest [EvRead fd_src BUFFER_SIZE r] (Some r)"
| wfail: "0 < n \<Longrightarrow> m \<noteq> int n \<Longrightarrow>
     loop_trace fd_src fd_dest
       [EvRead fd_src BUFFER_SIZE (int n), EvWrite fd_dest n m,
        EvPerror ''Error al escribir'' e, EvClose fd_src 0, EvClose fd_dest 0] None"
| round: "0 < n \<Longrightarrow> loop_trace fd_src fd_dest evs x \<Longrightarrow>
     loop_trace fd_src fd_dest
       (EvRead fd_src BUFFER_SIZE (int n) # EvWrite fd_dest n (int n) # evs) x"

text \<open>
  What the loop guarantees when it is entered with the source descriptor \<open>f\<close> and the
  destination descriptor \<open>g\<close>: only the bytes of the destination file change; a loop that
  exits has status 1 and has closed both descriptors; a loop that finishes leaves both
  open, and if it finished at end of input the destination has gained the rest of the
  source.
\<close>

definition loop_post :: "int \<Rightarrow> int \<Rightarrow> ofd \<Rightarrow> ofd \<Rightarrow> world \<Rightarrow> loop_end \<Rightarrow> bool" where
  "loop_post fd_src fd_dest f g w e =
     (case e of
        Exited status w' \<Rightarrow>
          status = 1 \<and>
          (\<exists>evs. trace w' = trace w @ evs \<and> loop_trace fd_src fd_dest evs None) \<and>
          (\<exists>d. files w' = (files w)[ino g := (files w ! ino g)\<lparr>data := d\<rparr>]) \<and>
          fdt w' = (fdt w)(fd_src := None, fd_dest := None)
      | Finished r w' \<Rightarrow>
          (r = 0 \<or> r = - 1) \<and>
          (\<exists>evs. trace w' = trace w @ evs \<and> loop_trace fd_src fd_dest evs (Some r)) \<and>
          (\<exists>d. files w' = (files w)[ino g := (files w ! ino g)\<lparr>data := d\<rparr>] \<and>
               (r = 0 \<longrightarrow> d = data (files w ! ino g) @ drop (pos f) (data (files w ! ino f)))) \<and>
          (\<exists>f' g'. fdt w' = (fdt w)(fd_src \<mapsto> f', fd_dest \<mapsto> g')))"


text \<open>
  The discipline of handles, checked along a record of calls. The two arguments are the
  source handle and the destination handle that are open at this point (a handle opened
  read-only is a source handle, any other a destination handle). An open must find its
  slot free, a read goes to the open source handle and a write to the open destination
  handle, a close must succeed on a handle that is open and frees its slot, and at the end
  no handle is open.
\<close>

fun handles_ok :: "int option \<Rightarrow> int option \<Rightarrow> event list \<Rightarrow> bool" where
  "handles_ok s d [] = (s = None \<and> d = None)"
| "handles_ok s d (EvOpen p fl r # es) =
     (if r = - 1 then handles_ok s d es
      else if fl = O_RDONLY then s = None \<and> d \<noteq> Some r \<and> handles_ok (Some r) d es
      else d = None \<and> s \<noteq> Some r \<and> handles_ok s (Some r) es)"
| "handles_ok s d (EvClose fd r # es) =
     (r = 0 \<and> (if s = Some fd then handles_ok None d es
               else d = Some fd \<and> handles_ok s None es))"
| "handles_ok s d (EvRead fd c r # es) = (s = Some fd \<and> handles_ok s d es)"
| "handles_ok s d (EvWrite fd c r # es) = (d = Some fd \<and> handles_ok s d es)"
| "handles_ok s d (EvPerror msg e # es) = handles_ok s d es"
| "handles_ok s d (EvPrintf msg # es) = handles_ok s d es"

text \<open>A record of calls in which every write took as many bytes as it was given.\<close>

fun all_writes_full :: "event list \<Rightarrow> bool" where
  "all_writes_full [] = True"
| "all_writes_full (EvWrite fd c r # es) = (r = int c \<and> all_writes_full es)"
| "all_writes_full (e # es) = all_writes_full es"

text \<open>What a run shows from outside: its exit status, and the files and the calls it leaves.\<close>

definition status_of :: "(int \<times> world) option \<Rightarrow> int option" where
  "status_of r = map_option fst r"

definition files_of :: "(int \<times> world) option \<Rightarrow> inode list option" where
  "files_of r = map_option (\<lambda>x. files (snd x)) r"

definition trace_of :: "(int \<times> world) option \<Rightarrow> event list option" where
  "trace_of r = map_option (\<lambda>x. trace (snd x)) r"

text \<open>
  A small world for concrete runs. File 0 is the terminal, which descriptors 0, 1 and 2
  refer to; \<open>a\<close> has three bytes and permission bits 0644 (420); \<open>old\<close> has one byte and
  permission bits 0600 (384). The descriptor limit is 16, the umask 022 (18), and nothing
  is scripted to fail.
\<close>

definition tty :: ofd where
  "tty = \<lparr>ino = 0, pos = 0, oflags = 2\<rparr>"

definition small_world :: world where
  "small_world =
     \<lparr>files = [\<lparr>links = [''/dev/tty''], data = [], perm = 400\<rparr>,
               \<lparr>links = [''a''], data = [1, 2, 3], perm = 420\<rparr>,
               \<lparr>links = [''old''], data = [7], perm = 384\<rparr>],
      fdt = (\<lambda>fd. if fd = 0 \<or> fd = 1 \<or> fd = 2 then Some tty else None),
      nofile = 16, umask = 18, errno = 0,
      open_faults = [], read_faults = [], write_faults = [], trace = []\<rparr>"


section \<open>Properties of the system calls\<close>

text \<open>
  Each call is summed up by its possible outcomes, as a rule for case analysis: what it
  returns, and what it leaves in the files, the descriptor table and the record of calls.
\<close>

lemma resolve_Some: "resolve fs p = Some i \<Longrightarrow> i < length fs"
  by (induction fs arbitrary: i) (auto split: if_splits)

lemma resolve_append:
  "resolve (fs @ [g]) p =
     (case resolve fs p of Some i \<Rightarrow> Some i
      | None \<Rightarrow> if p \<in> set (links g) then Some (length fs) else None)"
  by (induction fs) (auto split: option.splits)

lemma alloc_fd_Some: "alloc_fd w = Some fd \<Longrightarrow> 0 \<le> fd \<and> fdt w fd = None"
  unfolding alloc_fd_def find_Some_iff
  apply (elim exE conjE)
  apply (drule nth_mem)
  apply simp
  done

lemma resolve_links: "map links fs' = map links fs \<Longrightarrow> resolve fs' p = resolve fs p"
proof (induction fs arbitrary: fs')
  case Nil
  then show ?case by simp
next
  case (Cons a fs)
  from Cons.prems obtain b gs where fs': "fs' = b # gs" by (cases fs') simp_all
  with Cons.prems have "links b = links a" "map links gs = map links fs" by simp_all
  with Cons.IH[of gs] fs' show ?case by simp
qed

lemma resolve_set_data: "resolve (fs[i := (fs ! i)\<lparr>data := d\<rparr>]) p = resolve fs p"
proof (rule resolve_links)
  show "map links (fs[i := (fs ! i)\<lparr>data := d\<rparr>]) = map links fs"
  proof (cases "i < length fs")
    case True
    then show ?thesis by (simp add: map_update list_update_same_conv)
  next
    case False
    then show ?thesis by (simp add: list_update_beyond)
  qed
qed

lemma sys_open_cases:
  obtains (failed) w1 where "sys_open p fl m w = (- 1, w1)" "files w1 = files w" "fdt w1 = fdt w"
      "trace w1 = trace w @ [EvOpen p fl (- 1)]" "umask w1 = umask w"
  | (created) fd w1 where "sys_open p fl m w = (fd, w1)" "0 \<le> fd" "fdt w fd = None"
      "resolve (files w) p = None" "fl AND O_CREAT \<noteq> 0"
      "files w1 = files w @ [\<lparr>links = [p], data = [], perm = m AND NOT (umask w)\<rparr>]"
      "fdt w1 = (fdt w)(fd \<mapsto> \<lparr>ino = length (files w), pos = 0, oflags = fl\<rparr>)"
      "trace w1 = trace w @ [EvOpen p fl fd]" "umask w1 = umask w"
  | (existing) fd i w1 where "sys_open p fl m w = (fd, w1)" "0 \<le> fd" "fdt w fd = None"
      "resolve (files w) p = Some i" "i < length (files w)"
      "files w1 = (if fl AND O_TRUNC = 0 then files w else (files w)[i := (files w ! i)\<lparr>data := []\<rparr>])"
      "fdt w1 = (fdt w)(fd \<mapsto> \<lparr>ino = i, pos = 0, oflags = fl\<rparr>)"
      "trace w1 = trace w @ [EvOpen p fl fd]" "umask w1 = umask w"
proof -
  let ?w0 = "w\<lparr>open_faults := tl (open_faults w)\<rparr>"
  show ?thesis
  proof (cases "open_err (open_faults w)")
    case (Some e)
    show ?thesis
      by (rule failed[of "snd (sys_open p fl m w)"]) (use Some in \<open>auto simp: sys_open_def Let_def\<close>)
  next
    case nf: None
    show ?thesis
    proof (cases "alloc_fd ?w0")
      case None
      show ?thesis
        by (rule failed[of "snd (sys_open p fl m w)"])
          (use nf None in \<open>auto simp: sys_open_def Let_def\<close>)
    next
      case (Some fd)
      from alloc_fd_Some[OF Some] have fd: "0 \<le> fd" "fdt w fd = None" by auto
      show ?thesis
      proof (cases "resolve (files w) p")
        case None
        show ?thesis
        proof (cases "fl AND O_CREAT = 0")
          case True
          show ?thesis
            by (rule failed[of "snd (sys_open p fl m w)"])
              (use nf Some None True in \<open>auto simp: sys_open_def Let_def\<close>)
        next
          case False
          show ?thesis
            by (rule created[of fd "snd (sys_open p fl m w)"])
              (use nf Some None fd False in \<open>auto simp: sys_open_def Let_def\<close>)
        qed
      next
        case (Some i)
        show ?thesis
          by (rule existing[of fd "snd (sys_open p fl m w)" i])
            (use nf \<open>alloc_fd ?w0 = Some fd\<close> fd Some resolve_Some[OF Some] in
              \<open>auto simp: sys_open_def Let_def\<close>)
      qed
    qed
  qed
qed


lemma read_len_le: "read_len sc full \<le> full"
  by (simp add: read_len_def split: list.splits rd_fault.splits)

lemma read_len_zero: "read_len sc full = 0 \<longleftrightarrow> full = 0"
  by (auto simp: read_len_def split: list.splits rd_fault.splits)

lemma write_len_le: "write_len sc count \<le> count"
  by (simp add: write_len_def split: list.splits wr_fault.splits)

lemma sys_read_cases:
  assumes "fdt w fs = Some f" "oflags f AND O_ACCMODE \<noteq> O_WRONLY" "ino f < length (files w)"
  obtains (err) w1 where "sys_read fs c w = (- 1, [], w1)" "files w1 = files w" "fdt w1 = fdt w"
      "trace w1 = trace w @ [EvRead fs c (- 1)]"
  | (got) n w1 where
      "sys_read fs c w = (int n, take n (drop (pos f) (data (files w ! ino f))), w1)"
      "n \<le> c" "n \<le> length (data (files w ! ino f)) - pos f"
      "n = 0 \<longleftrightarrow> c = 0 \<or> length (data (files w ! ino f)) \<le> pos f"
      "files w1 = files w" "fdt w1 = (fdt w)(fs \<mapsto> f\<lparr>pos := pos f + n\<rparr>)"
      "trace w1 = trace w @ [EvRead fs c (int n)]"
proof (cases "read_err (read_faults w)")
  case (Some e)
  show ?thesis
    by (rule err[of "snd (snd (sys_read fs c w))"])
      (use assms Some in \<open>auto simp: sys_read_def Let_def\<close>)
next
  case None
  let ?full = "min c (length (drop (pos f) (data (files w ! ino f))))"
  let ?n = "read_len (read_faults w) ?full"
  have le: "?n \<le> ?full" by (rule read_len_le)
  have z: "?n = 0 \<longleftrightarrow> ?full = 0" by (rule read_len_zero)
  show ?thesis
  proof (rule got[of ?n "snd (snd (sys_read fs c w))"])
    show "sys_read fs c w = (int ?n, take ?n (drop (pos f) (data (files w ! ino f))), snd (snd (sys_read fs c w)))"
      using assms None by (simp add: sys_read_def Let_def)
    show "?n \<le> c" using le by simp
    show "?n \<le> length (data (files w ! ino f)) - pos f" using le by simp
    show "?n = 0 \<longleftrightarrow> c = 0 \<or> length (data (files w ! ino f)) \<le> pos f"
      using z by (auto simp: min_def split: if_splits)
    show "files (snd (snd (sys_read fs c w))) = files w"
      using assms None by (simp add: sys_read_def Let_def)
    show "fdt (snd (snd (sys_read fs c w))) = (fdt w)(fs \<mapsto> f\<lparr>pos := pos f + ?n\<rparr>)"
      using assms None by (simp add: sys_read_def Let_def)
    show "trace (snd (snd (sys_read fs c w))) = trace w @ [EvRead fs c (int ?n)]"
      using assms None by (simp add: sys_read_def Let_def)
  qed
qed

lemma sys_write_cases:
  assumes "fdt w fd = Some g" "oflags g AND O_ACCMODE \<noteq> O_RDONLY" "ino g < length (files w)"
  obtains (err) w1 where "sys_write fd buf c w = (- 1, w1)" "files w1 = files w" "fdt w1 = fdt w"
      "trace w1 = trace w @ [EvWrite fd c (- 1)]"
  | (put) n w1 where "sys_write fd buf c w = (int n, w1)" "n \<le> c"
      "files w1 = (files w)[ino g := (files w ! ino g)
                     \<lparr>data := write_at (data (files w ! ino g)) (pos g) (take n buf)\<rparr>]"
      "fdt w1 = (fdt w)(fd \<mapsto> g\<lparr>pos := pos g + n\<rparr>)"
      "trace w1 = trace w @ [EvWrite fd c (int n)]"
proof (cases "write_err (write_faults w)")
  case (Some e)
  show ?thesis
    by (rule err[of "snd (sys_write fd buf c w)"])
      (use assms Some in \<open>auto simp: sys_write_def Let_def\<close>)
next
  case None
  show ?thesis
    by (rule put[of "write_len (write_faults w) c" "snd (sys_write fd buf c w)"])
      (use assms None write_len_le[of "write_faults w" c] in \<open>auto simp: sys_write_def Let_def\<close>)
qed

section \<open>The copy loop\<close>

text \<open>
  The loop ends whenever it is entered with two distinct open descriptors, the source
  read-only and the destination at the end of its file, on different files or on an empty
  one: the bytes left to read shrink with every round. The proof is by induction on their
  number and gives what \<open>loop_post\<close> says about the result.
\<close>

lemma flags_rd: "O_RDONLY AND O_ACCMODE \<noteq> O_WRONLY"
  by (simp add: O_RDONLY_def O_ACCMODE_def O_WRONLY_def)

lemma flags_wr: "(O_WRONLY OR O_CREAT OR O_TRUNC) AND O_ACCMODE \<noteq> O_RDONLY"
  by (simp add: O_RDONLY_def O_ACCMODE_def O_WRONLY_def O_CREAT_def O_TRUNC_def)

lemma flags_trunc: "(O_WRONLY OR O_CREAT OR O_TRUNC) AND O_TRUNC \<noteq> 0"
  by (simp add: O_WRONLY_def O_CREAT_def O_TRUNC_def)

lemma flags_rd_creat: "O_RDONLY AND O_CREAT = 0" "O_RDONLY AND O_TRUNC = 0"
  by (simp_all add: O_RDONLY_def)

lemma write_at_end: "write_at d (length d) bs = d @ bs"
  by (simp add: write_at_def)

lemma set_data_twice:
  "(fs[i := (fs ! i)\<lparr>data := d1\<rparr>])[i := (fs[i := (fs ! i)\<lparr>data := d1\<rparr>] ! i)\<lparr>data := d2\<rparr>]
     = fs[i := (fs ! i)\<lparr>data := d2\<rparr>]"
  by (cases "i < length fs") (simp_all add: list_update_beyond)

lemma set_data_same: "d = data (fs ! i) \<Longrightarrow> fs[i := (fs ! i)\<lparr>data := d\<rparr>] = fs"
  by (simp add: list_update_same_conv)


lemma loop_post_FinishedI:
  assumes "r = 0 \<or> r = - 1" "trace w' = trace w @ evs" "loop_trace fs fd evs (Some r)"
    and "files w' = (files w)[ino g := (files w ! ino g)\<lparr>data := d\<rparr>]"
    and "r = 0 \<Longrightarrow> d = data (files w ! ino g) @ drop (pos f) (data (files w ! ino f))"
    and "fdt w' = (fdt w)(fs \<mapsto> f', fd \<mapsto> g')"
  shows "loop_post fs fd f g w (Finished r w')"
  unfolding loop_post_def loop_end.case using assms by blast

lemma loop_post_ExitedI:
  assumes "trace w' = trace w @ evs" "loop_trace fs fd evs None"
    and "files w' = (files w)[ino g := (files w ! ino g)\<lparr>data := d\<rparr>]"
    and "fdt w' = (fdt w)(fs := None, fd := None)"
  shows "loop_post fs fd f g w (Exited 1 w')"
  unfolding loop_post_def loop_end.case using assms by blast

lemma fdt_same: "m a = Some x \<Longrightarrow> m b = Some y \<Longrightarrow> m = m(a \<mapsto> x, b \<mapsto> y)"
  by (simp add: fun_upd_idem)

lemma take_drop_rest: "take n (drop p s) @ drop (p + n) s = drop p s"
proof -
  have "drop (p + n) s = drop n (drop p s)" by (simp add: add.commute)
  then show ?thesis by (simp only: append_take_drop_id)
qed

lemma loop_post_round:
  assumes post: "loop_post fs fd f' g' w2 e"
    and tr: "trace w2 = trace w @ [EvRead fs BUFFER_SIZE (int n), EvWrite fd n (int n)]"
    and n: "0 < n"
    and fl: "files w2 = (files w)[ino g := (files w ! ino g)
               \<lparr>data := data (files w ! ino g) @ take n (drop (pos f) (data (files w ! ino f)))\<rparr>]"
    and fd: "fdt w2 = (fdt w)(fs \<mapsto> f', fd \<mapsto> g')"
    and ids: "ino g' = ino g" "ino f' = ino f" "pos f' = pos f + n"
    and ne: "ino f \<noteq> ino g" "ino g < length (files w)"
  shows "loop_post fs fd f g w e"
proof (cases e)
  case (Exited st w')
  from post obtain evs d where st: "st = 1"
    and t: "trace w' = trace w2 @ evs" and lt: "loop_trace fs fd evs None"
    and f: "files w' = (files w2)[ino g' := (files w2 ! ino g')\<lparr>data := d\<rparr>]"
    and t': "fdt w' = (fdt w2)(fs := None, fd := None)"
    unfolding Exited loop_post_def loop_end.case by blast
  have "loop_post fs fd f g w (Exited 1 w')"
  proof (rule loop_post_ExitedI)
    show "trace w' = trace w @ (EvRead fs BUFFER_SIZE (int n) # EvWrite fd n (int n) # evs)"
      using t tr by simp
    show "loop_trace fs fd (EvRead fs BUFFER_SIZE (int n) # EvWrite fd n (int n) # evs) None"
      using n lt by (rule loop_trace.round)
    show "files w' = (files w)[ino g := (files w ! ino g)\<lparr>data := d\<rparr>]"
      unfolding f ids fl by (rule set_data_twice)
    show "fdt w' = (fdt w)(fs := None, fd := None)"
      unfolding t' fd by simp
  qed
  with Exited st show ?thesis by simp
next
  case (Finished r w')
  from post obtain evs d f'' g'' where r: "r = 0 \<or> r = - 1"
    and t: "trace w' = trace w2 @ evs" and lt: "loop_trace fs fd evs (Some r)"
    and f: "files w' = (files w2)[ino g' := (files w2 ! ino g')\<lparr>data := d\<rparr>]"
    and d: "r = 0 \<longrightarrow> d = data (files w2 ! ino g') @ drop (pos f') (data (files w2 ! ino f'))"
    and t': "fdt w' = (fdt w2)(fs \<mapsto> f'', fd \<mapsto> g'')"
    unfolding Finished loop_post_def loop_end.case by blast
  have "loop_post fs fd f g w (Finished r w')"
  proof (rule loop_post_FinishedI)
    show "r = 0 \<or> r = - 1" by (rule r)
    show "trace w' = trace w @ (EvRead fs BUFFER_SIZE (int n) # EvWrite fd n (int n) # evs)"
      using t tr by simp
    show "loop_trace fs fd (EvRead fs BUFFER_SIZE (int n) # EvWrite fd n (int n) # evs) (Some r)"
      using n lt by (rule loop_trace.round)
    show "files w' = (files w)[ino g := (files w ! ino g)\<lparr>data := d\<rparr>]"
      unfolding f ids fl by (rule set_data_twice)
    show "fdt w' = (fdt w)(fs \<mapsto> f'', fd \<mapsto> g'')"
      unfolding t' fd by simp
    assume "r = 0"
    with d have "d = data (files w2 ! ino g) @ drop (pos f + n) (data (files w2 ! ino f))"
      using ids by simp
    also have "data (files w2 ! ino g) =
        data (files w ! ino g) @ take n (drop (pos f) (data (files w ! ino f)))"
      using ne by (simp add: fl)
    also have "data (files w2 ! ino f) = data (files w ! ino f)"
      using ne by (simp add: fl)
    finally show "d = data (files w ! ino g) @ drop (pos f) (data (files w ! ino f))"
      by (simp only: append_assoc take_drop_rest)
  qed
  with Finished show ?thesis by simp
qed

lemma copy_loop_write_failed:
  assumes rd: "sys_read fs BUFFER_SIZE w = (int n, buf, w1)" and n: "0 < n"
    and wr: "sys_write fd buf n w1 = (m, w2)" and m: "m \<noteq> int n"
    and t1: "trace w1 = trace w @ [EvRead fs BUFFER_SIZE (int n)]"
    and t2: "trace w2 = trace w1 @ [EvWrite fd n m]"
    and f2: "files w2 = (files w)[ino g := (files w ! ino g)\<lparr>data := d\<rparr>]"
    and d2: "fdt w2 = (fdt w)(fs \<mapsto> f', fd \<mapsto> g')" and ne: "fs \<noteq> fd"
  shows "\<exists>e. copy_loop fs fd w = Some e \<and> loop_post fs fd f g w e"
proof -
  let ?w3 = "snd (sys_close fd (snd (sys_close fs (perror ''Error al escribir'' w2))))"
  have "copy_loop fs fd w = Some (Exited 1 ?w3)"
    by (subst copy_loop.simps) (use rd n wr m in simp)
  moreover have "loop_post fs fd f g w (Exited 1 ?w3)"
  proof (rule loop_post_ExitedI)
    show "trace ?w3 = trace w @ [EvRead fs BUFFER_SIZE (int n), EvWrite fd n m,
            EvPerror ''Error al escribir'' (errno w2), EvClose fs 0, EvClose fd 0]"
      using t1 t2 d2 ne by (simp add: sys_close_def perror_def)
    show "loop_trace fs fd [EvRead fs BUFFER_SIZE (int n), EvWrite fd n m,
            EvPerror ''Error al escribir'' (errno w2), EvClose fs 0, EvClose fd 0] None"
      using n m by (rule loop_trace.wfail)
    show "files ?w3 = (files w)[ino g := (files w ! ino g)\<lparr>data := d\<rparr>]"
      using f2 d2 ne by (simp add: sys_close_def perror_def)
    show "fdt ?w3 = (fdt w)(fs := None, fd := None)"
      using d2 ne by (simp add: sys_close_def perror_def)
  qed
  ultimately show ?thesis by blast
qed

lemma copy_loop_total:
  assumes "fdt w fs = Some f" "fdt w fd = Some g" "fs \<noteq> fd"
    and "oflags f = O_RDONLY" "oflags g = O_WRONLY OR O_CREAT OR O_TRUNC"
    and "ino f < length (files w)" "ino g < length (files w)"
    and "ino f \<noteq> ino g \<or> data (files w ! ino f) = []"
    and "pos g = length (data (files w ! ino g))"
  shows "\<exists>e. copy_loop fs fd w = Some e \<and> loop_post fs fd f g w e"
  using assms
proof (induction "length (data (files w ! ino f)) - pos f" arbitrary: w f g rule: less_induct)
  case less
  note p = less.prems
  have rd: "oflags f AND O_ACCMODE \<noteq> O_WRONLY" using p(4) flags_rd by simp
  have wr: "oflags g AND O_ACCMODE \<noteq> O_RDONLY" using p(5) flags_wr by simp
  have bs: "BUFFER_SIZE \<noteq> 0" by (simp add: BUFFER_SIZE_def)
  from p(1) rd p(6) show ?case
  proof (cases rule: sys_read_cases[where c = BUFFER_SIZE])
    case (err w1)
    have "copy_loop fs fd w = Some (Finished (- 1) w1)"
      by (subst copy_loop.simps) (simp add: err)
    moreover have "loop_post fs fd f g w (Finished (- 1) w1)"
    proof (rule loop_post_FinishedI)
      show "trace w1 = trace w @ [EvRead fs BUFFER_SIZE (- 1)]" by (rule err)
      show "loop_trace fs fd [EvRead fs BUFFER_SIZE (- 1)] (Some (- 1))"
        by (rule loop_trace.stop) simp
      show "files w1 = (files w)[ino g := (files w ! ino g)\<lparr>data := data (files w ! ino g)\<rparr>]"
        using err by (simp add: set_data_same)
      show "fdt w1 = (fdt w)(fs \<mapsto> f, fd \<mapsto> g)"
        using err p fdt_same by simp
    qed simp_all
    ultimately show ?thesis by blast
  next
    case (got n w1)
    let ?src = "data (files w ! ino f)"
    let ?dst = "data (files w ! ino g)"
    show ?thesis
    proof (cases "n = 0")
      case True
      with got bs have eof: "drop (pos f) ?src = []" by simp
      have "copy_loop fs fd w = Some (Finished 0 w1)"
        by (subst copy_loop.simps) (use got True in simp)
      moreover have "loop_post fs fd f g w (Finished 0 w1)"
      proof (rule loop_post_FinishedI)
        show "trace w1 = trace w @ [EvRead fs BUFFER_SIZE 0]" using got True by simp
        show "loop_trace fs fd [EvRead fs BUFFER_SIZE 0] (Some 0)"
          by (rule loop_trace.stop) simp
        show "files w1 = (files w)[ino g := (files w ! ino g)\<lparr>data := ?dst\<rparr>]"
          using got by (simp add: set_data_same)
        show "?dst = ?dst @ drop (pos f) ?src" using eof by simp
        show "fdt w1 = (fdt w)(fs \<mapsto> f\<lparr>pos := pos f + n\<rparr>, fd \<mapsto> g)"
          using got p by (simp add: fun_upd_idem)
      qed simp_all
      ultimately show ?thesis by blast
    next
      case False
      then have npos: "0 < n" by simp
      with got have nonempty: "?src \<noteq> []" by auto
      with p have diff: "ino f \<noteq> ino g" by blast
      let ?buf = "take n (drop (pos f) ?src)"
      have lbuf: "length ?buf = n" using got by simp
      have g1: "fdt w1 fd = Some g" using got p by simp
      have i1: "ino g < length (files w1)" using got p by simp
      from g1 wr i1 show ?thesis
      proof (cases rule: sys_write_cases[where buf = ?buf and c = n])
        case (err w2)
        show ?thesis
        proof (rule copy_loop_write_failed[where g' = g])
          show "sys_read fs BUFFER_SIZE w = (int n, ?buf, w1)" by (rule got)
          show "sys_write fd ?buf n w1 = (- 1, w2)" by (rule err)
          show "trace w2 = trace w1 @ [EvWrite fd n (- 1)]" by (rule err)
          show "files w2 = (files w)[ino g := (files w ! ino g)\<lparr>data := ?dst\<rparr>]"
            using err got by (simp add: set_data_same)
          show "fdt w2 = (fdt w)(fs \<mapsto> f\<lparr>pos := pos f + n\<rparr>, fd \<mapsto> g)"
            using err got p by (simp add: fun_upd_idem)
        qed (use npos got p in simp_all)
      next
        case (put m w2)
        have fl2: "files w2 = (files w)[ino g := (files w ! ino g)
                     \<lparr>data := ?dst @ take m ?buf\<rparr>]"
          using put got p by (simp add: write_at_end)
        have fd2: "fdt w2 = (fdt w)(fs \<mapsto> f\<lparr>pos := pos f + n\<rparr>, fd \<mapsto> g\<lparr>pos := pos g + m\<rparr>)"
          using put got by simp
        show ?thesis
        proof (cases "m = n")
          case False
          show ?thesis
          proof (rule copy_loop_write_failed)
            show "sys_read fs BUFFER_SIZE w = (int n, ?buf, w1)" by (rule got)
            show "sys_write fd ?buf n w1 = (int m, w2)" by (rule put)
            show "trace w2 = trace w1 @ [EvWrite fd n (int m)]" by (rule put)
            show "files w2 = (files w)[ino g := (files w ! ino g)\<lparr>data := ?dst @ take m ?buf\<rparr>]"
              by (rule fl2)
            show "fdt w2 = (fdt w)(fs \<mapsto> f\<lparr>pos := pos f + n\<rparr>, fd \<mapsto> g\<lparr>pos := pos g + m\<rparr>)"
              by (rule fd2)
          qed (use npos got p False in simp_all)
        next
          case True
          let ?f' = "f\<lparr>pos := pos f + n\<rparr>" and ?g' = "g\<lparr>pos := pos g + n\<rparr>"
          have full: "take m ?buf = ?buf" using True lbuf by simp
          have "\<exists>e. copy_loop fs fd w2 = Some e \<and> loop_post fs fd ?f' ?g' w2 e"
          proof (rule less.hyps)
            show "length (data (files w2 ! ino ?f')) - pos ?f' < length ?src - pos f"
              using fl2 diff p got npos by simp
            show "fdt w2 fs = Some ?f'" using fd2 p by simp
            show "fdt w2 fd = Some ?g'" using fd2 True by simp
            show "ino ?f' \<noteq> ino ?g' \<or> data (files w2 ! ino ?f') = []" using diff by simp
            show "pos ?g' = length (data (files w2 ! ino ?g'))"
              using fl2 p full lbuf by simp
          qed (use p fl2 in simp_all)
          then obtain e where e: "copy_loop fs fd w2 = Some e" "loop_post fs fd ?f' ?g' w2 e"
            by blast
          have "copy_loop fs fd w = copy_loop fs fd w2"
            by (subst copy_loop.simps) (use got npos put True in simp)
          moreover have "loop_post fs fd f g w e"
          proof (rule loop_post_round[OF e(2)])
            show "trace w2 = trace w @ [EvRead fs BUFFER_SIZE (int n), EvWrite fd n (int n)]"
              using put got True by simp
            show "files w2 = (files w)[ino g := (files w ! ino g)\<lparr>data := ?dst @ ?buf\<rparr>]"
              using fl2 full by simp
            show "fdt w2 = (fdt w)(fs \<mapsto> ?f', fd \<mapsto> ?g')" using fd2 True by simp
          qed (use npos diff p in simp_all)
          ultimately show ?thesis using e by simp
        qed
      qed
    qed
  qed
qed


section \<open>The paths through main\<close>

text \<open>
  With three arguments a run takes one of three paths: the source open fails, the
  destination open fails, or both succeed and the loop is entered in a state that meets
  its conditions.
\<close>

lemma flags_not_rdonly: "O_WRONLY OR O_CREAT OR O_TRUNC \<noteq> O_RDONLY"
  by (simp add: O_RDONLY_def O_WRONLY_def O_CREAT_def O_TRUNC_def)

lemma main_cases:
  assumes len: "length argv = 3"
  obtains
    (src_failed) w1 where
      "sys_open (argv ! 1) O_RDONLY 0 w = (- 1, w1)"
      "files w1 = files w" "fdt w1 = fdt w"
      "trace w1 = trace w @ [EvOpen (argv ! 1) O_RDONLY (- 1)]"
      "main argv w = Some (1, perror ''Error al abrir archivo origen'' w1)"
  | (dest_failed) fs w1 w2 i where
      "sys_open (argv ! 1) O_RDONLY 0 w = (fs, w1)" "0 \<le> fs" "fdt w fs = None"
      "sys_open (argv ! 2) (O_WRONLY OR O_CREAT OR O_TRUNC) 420 w1 = (- 1, w2)"
      "files w2 = files w"
      "fdt w2 = (fdt w)(fs \<mapsto> \<lparr>ino = i, pos = 0, oflags = O_RDONLY\<rparr>)"
      "trace w2 = trace w @ [EvOpen (argv ! 1) O_RDONLY fs,
                             EvOpen (argv ! 2) (O_WRONLY OR O_CREAT OR O_TRUNC) (- 1)]"
      "main argv w = Some (1, snd (sys_close fs (perror ''Error al crear archivo destino'' w2)))"
  | (opened) fs fd w1 w2 i j where
      "sys_open (argv ! 1) O_RDONLY 0 w = (fs, w1)"
      "sys_open (argv ! 2) (O_WRONLY OR O_CREAT OR O_TRUNC) 420 w1 = (fd, w2)"
      "0 \<le> fs" "0 \<le> fd" "fs \<noteq> fd" "fdt w fs = None" "fdt w fd = None"
      "resolve (files w) (argv ! 1) = Some i" "i < length (files w)"
      "resolve (files w) (argv ! 2) = None \<and> j = length (files w) \<and>
         files w2 = files w @ [\<lparr>links = [argv ! 2], data = [], perm = 420 AND NOT (umask w)\<rparr>]
       \<or> resolve (files w) (argv ! 2) = Some j \<and> j < length (files w) \<and>
         files w2 = (files w)[j := (files w ! j)\<lparr>data := []\<rparr>]"
      "fdt w2 = (fdt w)(fs \<mapsto> \<lparr>ino = i, pos = 0, oflags = O_RDONLY\<rparr>,
                        fd \<mapsto> \<lparr>ino = j, pos = 0, oflags = O_WRONLY OR O_CREAT OR O_TRUNC\<rparr>)"
      "trace w2 = trace w @ [EvOpen (argv ! 1) O_RDONLY fs,
                             EvOpen (argv ! 2) (O_WRONLY OR O_CREAT OR O_TRUNC) fd]"
      "main argv w =
         (case copy_loop fs fd w2 of
            None \<Rightarrow> None
          | Some (Exited st w3) \<Rightarrow> Some (st, w3)
          | Some (Finished r w3) \<Rightarrow>
              Some (0, printf (''Copia completada exitosamente.'' @ [newline])
                     (snd (sys_close fd (snd (sys_close fs
                        (if r = - 1 then perror ''Error al leer'' w3 else w3)))))))"
proof (cases rule: sys_open_cases[of "argv ! 1" O_RDONLY 0 w])
  case (failed w1)
  show ?thesis
    by (rule src_failed[of w1]) (use failed len in \<open>simp_all add: main_def\<close>)
next
  case (created fs w1)
  then show ?thesis by (simp add: flags_rd_creat)
next
  case src: (existing fs i w1)
  have f1: "files w1 = files w" using src by (simp add: flags_rd_creat)
  have ne: "fs \<noteq> - 1" using src by auto
  show ?thesis
  proof (cases rule: sys_open_cases[of "argv ! 2" "O_WRONLY OR O_CREAT OR O_TRUNC" 420 w1])
    case (failed w2)
    show ?thesis
      by (rule dest_failed[of fs w1 w2 i])
        (use failed src f1 ne len in \<open>simp_all add: main_def\<close>)
  next
    case (created fd w2)
    have nd: "fd \<noteq> - 1" "fs \<noteq> fd" using created src by auto
    show ?thesis
      by (rule opened[of fs w1 fd w2 i "length (files w)"])
        (use created src f1 ne nd len in \<open>simp_all add: main_def split: option.splits loop_end.splits\<close>)
  next
    case (existing fd j w2)
    have nd: "fd \<noteq> - 1" "fs \<noteq> fd" using existing src by auto
    show ?thesis
      by (rule opened[of fs w1 fd w2 i j])
        (use existing src f1 ne nd len flags_trunc in
          \<open>simp_all add: main_def split: option.splits loop_end.splits\<close>)
  qed
qed

lemma opened_loop:
  assumes ne: "fs \<noteq> fd" and i: "i < length (files w)"
    and dst: "j = length (files w) \<and> files w2 = files w @ [nw] \<and> data nw = []
       \<or> j < length (files w) \<and> files w2 = (files w)[j := (files w ! j)\<lparr>data := []\<rparr>]"
    and tab: "fdt w2 = (fdt w)(fs \<mapsto> \<lparr>ino = i, pos = 0, oflags = O_RDONLY\<rparr>,
                        fd \<mapsto> \<lparr>ino = j, pos = 0, oflags = O_WRONLY OR O_CREAT OR O_TRUNC\<rparr>)"
  shows "\<exists>e. copy_loop fs fd w2 = Some e \<and>
           loop_post fs fd \<lparr>ino = i, pos = 0, oflags = O_RDONLY\<rparr>
             \<lparr>ino = j, pos = 0, oflags = O_WRONLY OR O_CREAT OR O_TRUNC\<rparr> w2 e"
proof (rule copy_loop_total)
  show "fdt w2 fs = Some \<lparr>ino = i, pos = 0, oflags = O_RDONLY\<rparr>" using tab ne by simp
  show "fdt w2 fd = Some \<lparr>ino = j, pos = 0, oflags = O_WRONLY OR O_CREAT OR O_TRUNC\<rparr>"
    using tab by simp
  show "ino \<lparr>ino = i, pos = 0, oflags = O_RDONLY\<rparr> < length (files w2)"
    using dst i by auto
  show "ino \<lparr>ino = j, pos = 0, oflags = O_WRONLY OR O_CREAT OR O_TRUNC\<rparr> < length (files w2)"
    using dst by auto
  show "ino \<lparr>ino = i, pos = 0, oflags = O_RDONLY\<rparr>
          \<noteq> ino \<lparr>ino = j, pos = 0, oflags = O_WRONLY OR O_CREAT OR O_TRUNC\<rparr>
        \<or> data (files w2 ! ino \<lparr>ino = i, pos = 0, oflags = O_RDONLY\<rparr>) = []"
    using dst i by (cases "i = j") auto
  show "pos \<lparr>ino = j, pos = 0, oflags = O_WRONLY OR O_CREAT OR O_TRUNC\<rparr>
          = length (data (files w2 ! ino \<lparr>ino = j, pos = 0, oflags = O_WRONLY OR O_CREAT OR O_TRUNC\<rparr>))"
    using dst by auto
qed (use ne in simp_all)

lemma fdt_restore2:
  "m a = None \<Longrightarrow> m b = None \<Longrightarrow> (m(a \<mapsto> x, b \<mapsto> y))(a := None, b := None) = m"
  by (rule ext) simp

lemma loop_trace_handles:
  assumes "loop_trace fs fd evs x" "fs \<noteq> fd"
  shows "handles_ok (Some fs) (Some fd) (evs @ rest) =
           (case x of None \<Rightarrow> handles_ok None None rest
            | Some r \<Rightarrow> handles_ok (Some fs) (Some fd) rest)"
  using assms by (induction rule: loop_trace.induct) simp_all

lemma main_opened:
  assumes ne: "fs \<noteq> fd" and free: "fdt w fs = None" "fdt w fd = None"
    and i: "i < length (files w)"
    and dst0: "resolve (files w) p = None \<and> j = length (files w) \<and>
         files w2 = files w @ [\<lparr>links = [p], data = [], perm = pm\<rparr>]
       \<or> resolve (files w) p = Some j \<and> j < length (files w) \<and>
         files w2 = (files w)[j := (files w ! j)\<lparr>data := []\<rparr>]"
    and tab: "fdt w2 = (fdt w)(fs \<mapsto> \<lparr>ino = i, pos = 0, oflags = O_RDONLY\<rparr>,
                        fd \<mapsto> \<lparr>ino = j, pos = 0, oflags = O_WRONLY OR O_CREAT OR O_TRUNC\<rparr>)"
    and m: "main argv w =
         (case copy_loop fs fd w2 of
            None \<Rightarrow> None
          | Some (Exited st w3) \<Rightarrow> Some (st, w3)
          | Some (Finished r w3) \<Rightarrow>
              Some (0, printf (''Copia completada exitosamente.'' @ [newline])
                     (snd (sys_close fd (snd (sys_close fs
                        (if r = - 1 then perror ''Error al leer'' w3 else w3)))))))"
  obtains
    (write_failed) w' levs d where
      "main argv w = Some (1, w')" "trace w' = trace w2 @ levs" "loop_trace fs fd levs None"
      "fdt w' = fdt w" "files w' = (files w2)[j := (files w2 ! j)\<lparr>data := d\<rparr>]"
      "copy_loop fs fd w2 = Some (Exited 1 w')"
  | (finished) w' levs r d e w3 where
      "main argv w = Some (0, w')" "r = 0 \<or> r = - 1" "loop_trace fs fd levs (Some r)"
      "trace w' = trace w2 @ levs @ (if r = - 1 then [EvPerror ''Error al leer'' e] else []) @
         [EvClose fs 0, EvClose fd 0, EvPrintf (''Copia completada exitosamente.'' @ [newline])]"
      "fdt w' = fdt w" "files w' = (files w2)[j := (files w2 ! j)\<lparr>data := d\<rparr>]"
      "r = 0 \<Longrightarrow> d = data (files w2 ! i)"
      "copy_loop fs fd w2 = Some (Finished r w3)"
proof -
  let ?f = "\<lparr>ino = i, pos = 0, oflags = O_RDONLY\<rparr>"
  let ?g = "\<lparr>ino = j, pos = 0, oflags = O_WRONLY OR O_CREAT OR O_TRUNC\<rparr>"
  have dst: "j = length (files w) \<and> files w2 = files w @ [\<lparr>links = [p], data = [], perm = pm\<rparr>] \<and>
          data \<lparr>links = [p], data = [], perm = pm\<rparr> = []
       \<or> j < length (files w) \<and> files w2 = (files w)[j := (files w ! j)\<lparr>data := []\<rparr>]"
    using dst0 by auto
  from opened_loop[OF ne i dst tab] obtain e
    where e: "copy_loop fs fd w2 = Some e" and post: "loop_post fs fd ?f ?g w2 e" by blast
  have empty: "data (files w2 ! j) = []" using dst by auto
  show ?thesis
  proof (cases e)
    case (Exited st w3)
    from post obtain levs d where st: "st = 1"
      and t: "trace w3 = trace w2 @ levs" and lt: "loop_trace fs fd levs None"
      and f: "files w3 = (files w2)[j := (files w2 ! j)\<lparr>data := d\<rparr>]"
      and t': "fdt w3 = (fdt w2)(fs := None, fd := None)"
      unfolding Exited loop_post_def loop_end.case by auto
    show ?thesis
    proof (rule write_failed[of w3 levs d])
      show "main argv w = Some (1, w3)" using m e Exited st by simp
      show "fdt w3 = fdt w" unfolding t' tab using free by (rule fdt_restore2)
      show "copy_loop fs fd w2 = Some (Exited 1 w3)" using e Exited st by simp
    qed (rule t lt f)+
  next
    case (Finished r w3)
    from post obtain levs d f' g' where r: "r = 0 \<or> r = - 1"
      and t: "trace w3 = trace w2 @ levs" and lt: "loop_trace fs fd levs (Some r)"
      and f: "files w3 = (files w2)[j := (files w2 ! j)\<lparr>data := d\<rparr>]"
      and d: "r = 0 \<longrightarrow> d = data (files w2 ! j) @ drop 0 (data (files w2 ! i))"
      and t': "fdt w3 = (fdt w2)(fs \<mapsto> f', fd \<mapsto> g')"
      unfolding Finished loop_post_def loop_end.case by auto
    let ?w4 = "if r = - 1 then perror ''Error al leer'' w3 else w3"
    let ?w' = "printf (''Copia completada exitosamente.'' @ [newline])
                 (snd (sys_close fd (snd (sys_close fs ?w4))))"
    have t4: "fdt ?w4 = (fdt w2)(fs \<mapsto> f', fd \<mapsto> g')" using t' by (simp add: perror_def)
    show ?thesis
    proof (rule finished[of ?w' r levs "errno w3" d w3])
      show "main argv w = Some (0, ?w')" using m e Finished by simp
      show "trace ?w' = trace w2 @ levs @ (if r = - 1 then [EvPerror ''Error al leer'' (errno w3)] else []) @
         [EvClose fs 0, EvClose fd 0, EvPrintf (''Copia completada exitosamente.'' @ [newline])]"
        using t t' ne by (simp add: printf_def sys_close_def perror_def)
      show "fdt ?w' = fdt w"
        using t' ne free unfolding tab by (auto simp: printf_def sys_close_def perror_def)
      show "files ?w' = (files w2)[j := (files w2 ! j)\<lparr>data := d\<rparr>]"
        using f t' ne by (simp add: printf_def sys_close_def perror_def)
      show "r = 0 \<Longrightarrow> d = data (files w2 ! i)" using d empty by simp
      show "copy_loop fs fd w2 = Some (Finished r w3)" using e Finished by simp
    qed (rule r lt)+
  qed
qed

lemma all_writes_full_append:
  "all_writes_full (xs @ ys) \<longleftrightarrow> all_writes_full xs \<and> all_writes_full ys"
  by (induction xs rule: all_writes_full.induct) simp_all

lemma all_writes_full_no_short:
  assumes "all_writes_full es" and "es = pre @ EvWrite fd n m # post"
  shows "m = int n"
  using assms by (simp add: all_writes_full_append)

lemma short_write_unique:
  assumes "all_writes_full good" "all_writes_full rest" "m0 \<noteq> int n0"
    and "good @ EvWrite fd0 n0 m0 # rest = pre @ EvWrite fd n m # post" "m \<noteq> int n"
  shows "pre = good \<and> fd = fd0 \<and> n = n0 \<and> m = m0 \<and> post = rest"
  using assms
proof (induction good arbitrary: pre)
  case Nil
  show ?case
  proof (cases pre)
    case Nil
    with Nil.prems show ?thesis by simp
  next
    case (Cons x pre')
    with Nil.prems have "rest = pre' @ EvWrite fd n m # post" by simp
    from all_writes_full_no_short[OF Nil.prems(2) this] Nil.prems(5) show ?thesis by simp
  qed
next
  case (Cons g gs)
  show ?case
  proof (cases pre)
    case Nil
    with Cons.prems have "g = EvWrite fd n m" by simp
    with Cons.prems(1,5) show ?thesis by simp
  next
    case (Cons x pre')
    with Cons.prems have eq: "gs @ EvWrite fd0 n0 m0 # rest = pre' @ EvWrite fd n m # post"
      and x: "x = g" by simp_all
    have "all_writes_full gs" using Cons.prems(1) by (cases g) simp_all
    from Cons.IH[OF this Cons.prems(2,3) eq Cons.prems(5)] x Cons show ?thesis by simp
  qed
qed

lemma loop_trace_shape:
  assumes "loop_trace fs fd evs x"
  shows "case x of
           Some r \<Rightarrow> all_writes_full evs
         | None \<Rightarrow> (\<exists>good n m e. evs = good @ [EvRead fs BUFFER_SIZE (int n), EvWrite fd n m,
                       EvPerror ''Error al escribir'' e, EvClose fs 0, EvClose fd 0] \<and>
                     all_writes_full good \<and> m \<noteq> int n \<and> 0 < n)"
  using assms
proof (induction rule: loop_trace.induct)
  case (stop r)
  then show ?case by simp
next
  case (wfail n m e)
  then show ?case by (auto intro!: exI[of _ "[]"])
next
  case (round n evs x)
  show ?case
  proof (cases x)
    case None
    with round.IH obtain good k m e where
      "evs = good @ [EvRead fs BUFFER_SIZE (int k), EvWrite fd k m,
         EvPerror ''Error al escribir'' e, EvClose fs 0, EvClose fd 0]"
      "all_writes_full good" "m \<noteq> int k" "0 < k" by auto
    then show ?thesis unfolding None
      by (auto intro!: exI[of _ "EvRead fs BUFFER_SIZE (int n) # EvWrite fd n (int n) # good"])
  next
    case (Some r)
    with round.IH show ?thesis by simp
  qed
qed




lemma loop_trace_last_read:
  assumes "loop_trace fs fd evs x" "x = Some r"
  shows "EvRead fs BUFFER_SIZE r \<in> set evs"
  using assms by (induction rule: loop_trace.induct) simp_all

lemma and_not_disjoint:
  fixes m u :: "32 word"
  assumes "u AND m = 0"
  shows "m AND NOT u = m"
proof (rule bit_eqI)
  fix n
  assume "possible_bit TYPE(32 word) n"
  from assms have "\<not> (bit u n \<and> bit m n)"
    by (metis bit_and_iff bit_0_eq bot_apply bot_bool_def)
  then show "bit (m AND NOT u) n = bit m n"
    by (auto simp: bit_and_iff bit_not_iff dest: bit_imp_le_length)
qed

lemma main_finished_cases:
  assumes run: "main argv w = Some (0, w')"
  obtains fs fd i j w1 w2 levs r d e where
    "length argv = 3" "fs \<noteq> fd"
    "resolve (files w) (argv ! 1) = Some i" "i < length (files w)"
    "resolve (files w) (argv ! 2) = None \<and> j = length (files w) \<and>
       files w2 = files w @ [\<lparr>links = [argv ! 2], data = [], perm = 420 AND NOT (umask w)\<rparr>]
     \<or> resolve (files w) (argv ! 2) = Some j \<and> j < length (files w) \<and>
       files w2 = (files w)[j := (files w ! j)\<lparr>data := []\<rparr>]"
    "r = 0 \<or> r = - 1" "loop_trace fs fd levs (Some r)"
    "trace w' = trace w @
       [EvOpen (argv ! 1) O_RDONLY fs, EvOpen (argv ! 2) (O_WRONLY OR O_CREAT OR O_TRUNC) fd] @
       levs @ (if r = - 1 then [EvPerror ''Error al leer'' e] else []) @
       [EvClose fs 0, EvClose fd 0, EvPrintf (''Copia completada exitosamente.'' @ [newline])]"
    "fdt w' = fdt w" "files w' = (files w2)[j := (files w2 ! j)\<lparr>data := d\<rparr>]"
    "r = 0 \<Longrightarrow> d = data (files w2 ! i)"
    "sys_open (argv ! 1) O_RDONLY 0 w = (fs, w1)"
    "sys_open (argv ! 2) (O_WRONLY OR O_CREAT OR O_TRUNC) 420 w1 = (fd, w2)"
proof -
  have len: "length argv = 3" using run by (auto simp: main_def split: if_splits)
  from len show ?thesis
  proof (cases rule: main_cases[where w = w])
    case (src_failed w1)
    with run show ?thesis by simp
  next
    case (dest_failed fs w1 w2 i)
    with run show ?thesis by simp
  next
    case (opened fs fd w1 w2 i j)
    from opened(5,6,7,9,10,11,13) show ?thesis
    proof (cases rule: main_opened)
      case (write_failed w'' levs d)
      with run show ?thesis by simp
    next
      case (finished w'' levs r d e w3)
      with run have "w'' = w'" by simp
      with finished opened len show ?thesis
        by (intro that[of fs fd i j w2 r levs e d w1]) simp_all
    qed
  qed
qed


lemma status_ofD: "status_of r = Some st \<Longrightarrow> \<exists>w'. r = Some (st, w')"
  by (auto simp: status_of_def)

lemma trace_ofD: "trace_of r = Some t \<Longrightarrow> r = Some (st, w') \<Longrightarrow> trace w' = t"
  by (auto simp: trace_of_def)


section \<open>The system call and its test\<close>

lemma sint_add_ten:
  fixes i :: c_int
  assumes "sint i \<le> INT_MAX - 10"
  shows "sint (i + 10) = sint i + 10"
proof -
  have lo: "- (2 ^ 31) \<le> sint i" using sint_ge[of i] by simp
  have "sint (i + 10) = signed_take_bit 31 (sint i + 10)"
    by (simp add: sint_word_ariths)
  also have "\<dots> = sint i + 10"
    by (rule signed_take_bit_int_eq_self) (use lo assms in \<open>simp_all add: INT_MAX_def\<close>)
  finally show ?thesis .
qed

lemma scast_int_long: "sint (scast (x :: c_int) :: c_long) = sint x"
  by (rule sint_up_scast) (simp add: is_up)

lemma prueba_main_run:
  "prueba_main klg =
     (0, [Text (''--- Iniciando prueba de Syscall ---'' @ [newline]),
          TextLd (''Resultado devuelto por el kernel: %ld'' @ [newline]) 60,
          Text (''Funko el kernel'' @ [newline])],
      klg @ [KernInfo (''Hola desde el PapuKernel!! Recibi: %d'' @ [newline]) 50])"
  by (simp add: prueba_main_def syscall_def sys_mycall_def Let_def)

text \<open>
  Claim C9. For every \<open>int\<close> input \<open>i\<close> with \<open>i \<le> INT_MAX - 10\<close> the handler returns
  \<open>i + 10\<close> and logs the value it received; the user-space test, which calls it with 50,
  gets 60, prints the success branch and returns 0.
\<close>

theorem mycall_adds_ten:
  assumes "sint i \<le> INT_MAX - 10"
  shows "sint (fst (sys_mycall i klg)) = sint i + 10 \<and>
         snd (sys_mycall i klg) =
           klg @ [KernInfo (''Hola desde el PapuKernel!! Recibi: %d'' @ [newline]) (sint i)] \<and>
         prueba_main klg =
           (0, [Text (''--- Iniciando prueba de Syscall ---'' @ [newline]),
                TextLd (''Resultado devuelto por el kernel: %ld'' @ [newline]) 60,
                Text (''Funko el kernel'' @ [newline])],
            klg @ [KernInfo (''Hola desde el PapuKernel!! Recibi: %d'' @ [newline]) 50])"
  using sint_add_ten[OF assms] by (simp add: sys_mycall_def scast_int_long prueba_main_run)

theorem mycall_adds_ten_witness:
  "sint (50 :: c_int) \<le> INT_MAX - 10 \<and> sint (fst (sys_mycall 50 [])) = 60 \<and>
   snd (sys_mycall 50 []) = [KernInfo (''Hola desde el PapuKernel!! Recibi: %d'' @ [newline]) 50] \<and>
   fst (prueba_main []) = 0"
  using mycall_adds_ten[of 50 "[]"] by (simp add: INT_MAX_def)


section \<open>The runs of the copier\<close>

text \<open>
  Claim C7. Called with an argument count other than three (the program name and two
  paths), the copier exits with status 1, and the world it leaves is the world it found
  with the usage message printed: no file is opened, created or changed.
\<close>

theorem usage_error:
  assumes "length argv \<noteq> 3"
  shows "main argv w =
           Some (1, w\<lparr>trace := trace w @
             [EvPrintf (''Uso correcto: '' @ argv0 argv @
                        '' <archivo_origen> <archivo_destino>'' @ [newline])]\<rparr>)"
  using assms by (simp add: main_def printf_def)

theorem usage_error_witness:
  "length [''files'', ''a''] \<noteq> 3 \<and>
   status_of (main [''files'', ''a''] small_world) = Some 1 \<and>
   files_of (main [''files'', ''a''] small_world) = Some (files small_world) \<and>
   trace_of (main [''files'', ''a''] small_world) =
     Some [EvPrintf (''Uso correcto: files <archivo_origen> <archivo_destino>'' @ [newline])]"
  using usage_error[of "[''files'', ''a'']" small_world]
  by (simp add: status_of_def files_of_def trace_of_def argv0_def small_world_def)



text \<open>
  Claim C6. When the source cannot be opened, the copier exits with status 1 after
  reporting the error the failed open left in \<open>errno\<close>; the only calls it has made are
  that open and the report, so no destination descriptor exists, and the files and the
  descriptor table are as they were.
\<close>

theorem source_open_failure:
  assumes "length argv = 3" and "fst (sys_open (argv ! 1) O_RDONLY 0 w) = - 1"
  shows "\<exists>w'. main argv w = Some (1, w') \<and> files w' = files w \<and> fdt w' = fdt w \<and>
           errno w' = errno (snd (sys_open (argv ! 1) O_RDONLY 0 w)) \<and>
           trace w' = trace w @ [EvOpen (argv ! 1) O_RDONLY (- 1),
                                 EvPerror ''Error al abrir archivo origen'' (errno w')]"
  using assms(1)
proof (cases rule: main_cases[where w = w])
  case (src_failed w1)
  then show ?thesis by (simp add: perror_def)
next
  case (dest_failed fs w1 w2 i)
  with assms(2) show ?thesis by simp
next
  case (opened fs fd w1 w2 i j)
  with assms(2) show ?thesis by simp
qed

theorem source_open_failure_witness:
  "length [''files'', ''missing'', ''b''] = 3 \<and>
   fst (sys_open ([''files'', ''missing'', ''b''] ! 1) O_RDONLY 0 small_world) = - 1 \<and>
   status_of (main [''files'', ''missing'', ''b''] small_world) = Some 1 \<and>
   files_of (main [''files'', ''missing'', ''b''] small_world) = Some (files small_world) \<and>
   trace_of (main [''files'', ''missing'', ''b''] small_world) =
     Some [EvOpen ''missing'' O_RDONLY (- 1), EvPerror ''Error al abrir archivo origen'' ENOENT]"
proof -
  have h1: "length [''files'', ''missing'', ''b''] = 3" by simp
  have h2: "fst (sys_open ([''files'', ''missing'', ''b''] ! 1) O_RDONLY 0 small_world) = - 1"
    by code_simp
  have e: "errno (snd (sys_open ''missing'' O_RDONLY 0 small_world)) = ENOENT" by code_simp
  from source_open_failure[OF h1 h2] h1 h2 e show ?thesis
    by (auto simp: status_of_def files_of_def trace_of_def small_world_def)
qed


text \<open>
  Claim C5. When the source opens and the destination does not, the copier reports the
  error, closes the source descriptor and exits with status 1; its calls are the two opens,
  the report and the close (no read, no write), and the files and the descriptor table are
  as they were.
\<close>

theorem dest_open_failure:
  assumes "length argv = 3"
    and "sys_open (argv ! 1) O_RDONLY 0 w = (fd_src, w1)" and "fd_src \<noteq> - 1"
    and "fst (sys_open (argv ! 2) (O_WRONLY OR O_CREAT OR O_TRUNC) 420 w1) = - 1"
  shows "\<exists>w'. main argv w = Some (1, w') \<and> files w' = files w \<and> fdt w' = fdt w \<and>
           trace w' = trace w @
             [EvOpen (argv ! 1) O_RDONLY fd_src,
              EvOpen (argv ! 2) (O_WRONLY OR O_CREAT OR O_TRUNC) (- 1),
              EvPerror ''Error al crear archivo destino''
                (errno (snd (sys_open (argv ! 2) (O_WRONLY OR O_CREAT OR O_TRUNC) 420 w1))),
              EvClose fd_src 0]"
  using assms(1)
proof (cases rule: main_cases[where w = w])
  case (src_failed w1')
  with assms(2,3) show ?thesis by simp
next
  case (dest_failed fs w1' w2 i)
  with assms(2) have eq: "fs = fd_src" "w1' = w1" by simp_all
  show ?thesis
    using dest_failed unfolding eq
    by (simp add: perror_def sys_close_def fun_upd_idem)
next
  case (opened fs fd w1' w2 i j)
  with assms(2,4) show ?thesis by simp
qed

theorem dest_open_failure_witness:
  "length [''files'', ''a'', ''b''] = 3 \<and>
   fst (sys_open ''a'' O_RDONLY 0 (small_world\<lparr>open_faults := [None, Some 13]\<rparr>)) = 3 \<and>
   fst (sys_open ''b'' (O_WRONLY OR O_CREAT OR O_TRUNC) 420
         (snd (sys_open ''a'' O_RDONLY 0 (small_world\<lparr>open_faults := [None, Some 13]\<rparr>)))) = - 1 \<and>
   status_of (main [''files'', ''a'', ''b''] (small_world\<lparr>open_faults := [None, Some 13]\<rparr>)) = Some 1 \<and>
   files_of (main [''files'', ''a'', ''b''] (small_world\<lparr>open_faults := [None, Some 13]\<rparr>))
     = Some (files small_world) \<and>
   trace_of (main [''files'', ''a'', ''b''] (small_world\<lparr>open_faults := [None, Some 13]\<rparr>))
     = Some [EvOpen ''a'' O_RDONLY 3, EvOpen ''b'' (O_WRONLY OR O_CREAT OR O_TRUNC) (- 1),
             EvPerror ''Error al crear archivo destino'' 13, EvClose 3 0]"
proof -
  let ?w = "small_world\<lparr>open_faults := [None, Some 13]\<rparr>"
  let ?w1 = "snd (sys_open ''a'' O_RDONLY 0 ?w)"
  have h1: "length [''files'', ''a'', ''b''] = 3" by simp
  have f: "fst (sys_open ''a'' O_RDONLY 0 ?w) = 3" by code_simp
  have h2: "sys_open ([''files'', ''a'', ''b''] ! 1) O_RDONLY 0 ?w = (3, ?w1)"
    using f by (simp add: prod_eq_iff)
  have h3: "(3 :: int) \<noteq> - 1" by simp
  have g: "fst (sys_open ''b'' (O_WRONLY OR O_CREAT OR O_TRUNC) 420 ?w1) = - 1" by code_simp
  have h4: "fst (sys_open ([''files'', ''a'', ''b''] ! 2) (O_WRONLY OR O_CREAT OR O_TRUNC) 420 ?w1) = - 1"
    using g by simp
  have e: "errno (snd (sys_open ''b'' (O_WRONLY OR O_CREAT OR O_TRUNC) 420 ?w1)) = 13"
    by code_simp
  from dest_open_failure[OF h1 h2 h3 h4] h1 f g e show ?thesis
    by (auto simp: status_of_def files_of_def trace_of_def small_world_def)
qed


text \<open>
  Claim C3. Every run of the copier ends, whatever the arguments and the world. Along the
  calls it has made, never more than one source handle and one destination handle are
  open, every read and write goes to an open handle, every handle that was opened is
  closed once, successfully, and none is open at the end; the descriptor table at exit
  is the table the run found.
\<close>

theorem handles_closed_on_every_path:
  "\<exists>st w' evs. main argv w = Some (st, w') \<and> trace w' = trace w @ evs \<and>
     handles_ok None None evs \<and> fdt w' = fdt w"
proof (cases "length argv = 3")
  case False
  then show ?thesis by (simp add: main_def printf_def)
next
  case True
  then show ?thesis
  proof (cases rule: main_cases[where w = w])
    case (src_failed w1)
    then show ?thesis by (simp add: perror_def)
  next
    case (dest_failed fs w1 w2 i)
    then show ?thesis by (simp add: perror_def sys_close_def fun_upd_idem)
  next
    case (opened fs fd w1 w2 i j)
    have nr: "fs \<noteq> - 1" "fd \<noteq> - 1" using opened(3,4) by auto
    from opened(5,6,7,9,10,11,13) show ?thesis
    proof (cases rule: main_opened)
      case (write_failed w' levs d)
      have "handles_ok None None
              ([EvOpen (argv ! 1) O_RDONLY fs,
                EvOpen (argv ! 2) (O_WRONLY OR O_CREAT OR O_TRUNC) fd] @ levs @ [])"
        using loop_trace_handles[OF write_failed(3) opened(5), of "[]"] nr opened(5)
        by (simp add: flags_not_rdonly)
      with write_failed opened(12) show ?thesis by simp
    next
      case (finished w' levs r d e w3)
      let ?rest = "(if r = - 1 then [EvPerror ''Error al leer'' e] else []) @
         [EvClose fs 0, EvClose fd 0, EvPrintf (''Copia completada exitosamente.'' @ [newline])]"
      have "handles_ok None None
              ([EvOpen (argv ! 1) O_RDONLY fs,
                EvOpen (argv ! 2) (O_WRONLY OR O_CREAT OR O_TRUNC) fd] @ levs @ ?rest)"
        using loop_trace_handles[OF finished(3) opened(5), of ?rest] nr opened(5)
        by (simp add: flags_not_rdonly)
      with finished opened(12) show ?thesis by simp
    qed
  qed
qed



theorem handles_closed_on_every_path_witness:
  "trace_of (main [''files'', ''a'', ''b''] small_world) =
     Some [EvOpen ''a'' O_RDONLY 3, EvOpen ''b'' (O_WRONLY OR O_CREAT OR O_TRUNC) 4,
           EvRead 3 BUFFER_SIZE 3, EvWrite 4 3 3, EvRead 3 BUFFER_SIZE 0,
           EvClose 3 0, EvClose 4 0,
           EvPrintf (''Copia completada exitosamente.'' @ [newline])] \<and>
   handles_ok None None
     [EvOpen ''a'' O_RDONLY 3, EvOpen ''b'' (O_WRONLY OR O_CREAT OR O_TRUNC) 4,
      EvRead 3 BUFFER_SIZE 3, EvWrite 4 3 3, EvRead 3 BUFFER_SIZE 0,
      EvClose 3 0, EvClose 4 0,
      EvPrintf (''Copia completada exitosamente.'' @ [newline])]"
proof -
  let ?t = "[EvOpen ''a'' O_RDONLY 3, EvOpen ''b'' (O_WRONLY OR O_CREAT OR O_TRUNC) 4,
      EvRead 3 BUFFER_SIZE 3, EvWrite 4 3 3, EvRead 3 BUFFER_SIZE 0,
      EvClose 3 0, EvClose 4 0,
      EvPrintf (''Copia completada exitosamente.'' @ [newline])]"
  have t: "trace_of (main [''files'', ''a'', ''b''] small_world) = Some ?t" by code_simp
  from handles_closed_on_every_path[of "[''files'', ''a'', ''b'']" small_world]
  obtain st w' evs where r: "main [''files'', ''a'', ''b''] small_world = Some (st, w')"
    and e: "trace w' = trace small_world @ evs" and h: "handles_ok None None evs" by blast
  from trace_ofD[OF t r] e have "evs = ?t" by (simp add: small_world_def)
  with h t show ?thesis by simp
qed

text \<open>
  Claim C4. If a run contains a write whose result differs from the count it was given,
  then that write came right after a read that delivered that many bytes (more than
  none), the only calls after it are the report of the write error and the closes of the
  source and the destination descriptor, in this order, the exit status is 1 and the
  descriptor table is the one the run found: no further read, no further write, no retry.
\<close>

theorem write_mismatch_is_fatal:
  assumes run: "main argv w = Some (st, w')"
    and tr: "trace w' = trace w @ pre @ EvWrite fd n m # post"
    and bad: "m \<noteq> int n"
  shows "st = 1 \<and> 0 < n \<and> fdt w' = fdt w \<and>
         (\<exists>fs k e. fs \<noteq> fd \<and> pre = k @ [EvRead fs BUFFER_SIZE (int n)] \<and>
            post = [EvPerror ''Error al escribir'' e, EvClose fs 0, EvClose fd 0])"
proof (cases "length argv = 3")
  case False
  with run tr show ?thesis
    by (auto simp: main_def printf_def Cons_eq_append_conv)
next
  case True
  then show ?thesis
  proof (cases rule: main_cases[where w = w])
    case (src_failed w1)
    with run tr show ?thesis
      by (auto simp: perror_def Cons_eq_append_conv)
  next
    case (dest_failed fs w1 w2 i)
    with run tr show ?thesis
      by (auto simp: perror_def sys_close_def Cons_eq_append_conv)
  next
    case (opened fs fd' w1 w2 i j)
    let ?o = "[EvOpen (argv ! 1) O_RDONLY fs,
               EvOpen (argv ! 2) (O_WRONLY OR O_CREAT OR O_TRUNC) fd']"
    from opened(5,6,7,9,10,11,13) show ?thesis
    proof (cases rule: main_opened)
      case (write_failed w'' levs d)
      with run have w'': "w'' = w'" and st: "st = 1" by simp_all
      from loop_trace_shape[OF write_failed(3)] obtain good k m0 e where
        levs: "levs = good @ [EvRead fs BUFFER_SIZE (int k), EvWrite fd' k m0,
                 EvPerror ''Error al escribir'' e, EvClose fs 0, EvClose fd' 0]"
        and good: "all_writes_full good" and m0: "m0 \<noteq> int k" and k: "0 < k" by auto
      let ?good = "?o @ good @ [EvRead fs BUFFER_SIZE (int k)]"
      let ?rest = "[EvPerror ''Error al escribir'' e, EvClose fs 0, EvClose fd' 0]"
      have g: "all_writes_full ?good" using good by (simp add: all_writes_full_append)
      have "?good @ EvWrite fd' k m0 # ?rest = pre @ EvWrite fd n m # post"
        using tr write_failed(2) opened(12) levs unfolding w'' by simp
      from short_write_unique[OF g _ m0 this bad]
      have "pre = ?good" "fd = fd'" "n = k" "m = m0" "post = ?rest" by simp_all
      with st k write_failed(4) w'' opened(5) show ?thesis by auto
    next
      case (finished w'' levs r d e w3)
      with run have w'': "w'' = w'" by simp
      let ?all = "?o @ levs @ (if r = - 1 then [EvPerror ''Error al leer'' e] else []) @
         [EvClose fs 0, EvClose fd' 0, EvPrintf (''Copia completada exitosamente.'' @ [newline])]"
      have "all_writes_full ?all"
        using loop_trace_shape[OF finished(3)] by (simp add: all_writes_full_append)
      moreover have "?all = pre @ EvWrite fd n m # post"
        using tr finished(4) opened(12) unfolding w'' by simp
      ultimately have "m = int n" by (rule all_writes_full_no_short)
      with bad show ?thesis by simp
    qed
  qed
qed

theorem write_mismatch_is_fatal_witness:
  "\<exists>w'. main [''files'', ''a'', ''b''] (small_world\<lparr>write_faults := [WrShort 2]\<rparr>) = Some (1, w') \<and>
     trace w' = trace (small_world\<lparr>write_faults := [WrShort 2]\<rparr>) @
       [EvOpen ''a'' O_RDONLY 3, EvOpen ''b'' (O_WRONLY OR O_CREAT OR O_TRUNC) 4,
        EvRead 3 BUFFER_SIZE 3] @ EvWrite 4 3 2 #
       [EvPerror ''Error al escribir'' 0, EvClose 3 0, EvClose 4 0] \<and>
     (2 :: int) \<noteq> int 3 \<and>
     fdt w' = fdt (small_world\<lparr>write_faults := [WrShort 2]\<rparr>)"
proof -
  let ?w = "small_world\<lparr>write_faults := [WrShort 2]\<rparr>"
  let ?pre = "[EvOpen ''a'' O_RDONLY 3, EvOpen ''b'' (O_WRONLY OR O_CREAT OR O_TRUNC) 4,
        EvRead 3 BUFFER_SIZE 3]"
  let ?post = "[EvPerror ''Error al escribir'' 0, EvClose 3 0, EvClose 4 0]"
  have "status_of (main [''files'', ''a'', ''b''] ?w) = Some 1" by code_simp
  then obtain w' where r: "main [''files'', ''a'', ''b''] ?w = Some (1, w')"
    by (auto dest: status_ofD)
  have "trace_of (main [''files'', ''a'', ''b''] ?w) = Some (?pre @ EvWrite 4 3 2 # ?post)"
    by code_simp
  from trace_ofD[OF this r] have t: "trace w' = trace ?w @ ?pre @ EvWrite 4 3 2 # ?post"
    by (simp add: small_world_def)
  have b: "(2 :: int) \<noteq> int 3" by simp
  from write_mismatch_is_fatal[OF r t b] r t b show ?thesis by blast
qed

text \<open>
  Claim C1, on the code. A run in which the first read fails: the copier reports the read
  error and closes both descriptors, and then prints the message of a completed copy and
  returns 0, where the claim has exit status 1.
\<close>

theorem read_error_exits_zero:
  "status_of (main [''files'', ''a'', ''b''] (small_world\<lparr>read_faults := [RdErr 5]\<rparr>)) = Some 0 \<and>
   trace_of (main [''files'', ''a'', ''b''] (small_world\<lparr>read_faults := [RdErr 5]\<rparr>)) =
     Some [EvOpen ''a'' O_RDONLY 3, EvOpen ''b'' (O_WRONLY OR O_CREAT OR O_TRUNC) 4,
           EvRead 3 BUFFER_SIZE (- 1), EvPerror ''Error al leer'' 5,
           EvClose 3 0, EvClose 4 0,
           EvPrintf (''Copia completada exitosamente.'' @ [newline])]"
  by code_simp

text \<open>
  Claim C2, on the code. A run in which the first read delivers two of the three bytes of
  the source and the second read fails: the exit status is 0 and the destination has the
  two bytes, not the content of the source.
\<close>

theorem read_error_leaves_partial_copy:
  "status_of (main [''files'', ''a'', ''b'']
      (small_world\<lparr>read_faults := [RdShort 2, RdErr 5]\<rparr>)) = Some 0 \<and>
   files_of (main [''files'', ''a'', ''b'']
      (small_world\<lparr>read_faults := [RdShort 2, RdErr 5]\<rparr>)) =
     Some [\<lparr>links = [''/dev/tty''], data = [], perm = 400\<rparr>,
           \<lparr>links = [''a''], data = [1, 2, 3], perm = 420\<rparr>,
           \<lparr>links = [''old''], data = [7], perm = 384\<rparr>,
           \<lparr>links = [''b''], data = [1, 2], perm = 420\<rparr>]"
  by code_simp




text \<open>
  Claim C8, amended. After a run that exits with status 0 the destination path refers to
  a file. If the path referred to no file before, the file is new and its permission bits
  are 0644 (420) without the bits of the umask, so 0644 itself when the umask has none of
  those bits. If the path referred to a file before, it is the same file with the
  permission bits it had, and that file was empty once the destination was open.
\<close>

theorem destination_permissions:
  assumes run: "main argv w = Some (0, w')"
  shows "\<exists>j. resolve (files w') (argv ! 2) = Some j \<and> j < length (files w') \<and>
           (case resolve (files w) (argv ! 2) of
              None \<Rightarrow> j = length (files w) \<and> length (files w') = Suc (length (files w)) \<and>
                       perm (files w' ! j) = 420 AND NOT (umask w) \<and>
                       (umask w AND 420 = 0 \<longrightarrow> perm (files w' ! j) = 420)
            | Some j0 \<Rightarrow> j = j0 \<and> length (files w') = length (files w) \<and>
                       perm (files w' ! j) = perm (files w ! j0) \<and>
                       data (files (snd (sys_open (argv ! 2) (O_WRONLY OR O_CREAT OR O_TRUNC) 420
                                     (snd (sys_open (argv ! 1) O_RDONLY 0 w)))) ! j0) = [])"
  using run
proof (cases rule: main_finished_cases)
  case (1 fs fd i j w1 w2 levs r d e)
  have res: "resolve (files w') (argv ! 2) = resolve (files w2) (argv ! 2)"
    unfolding 1(10) by (rule resolve_set_data)
  have w2: "snd (sys_open (argv ! 2) (O_WRONLY OR O_CREAT OR O_TRUNC) 420
                  (snd (sys_open (argv ! 1) O_RDONLY 0 w))) = w2"
    using 1(12,13) by simp
  from 1(5) show ?thesis
  proof (elim disjE conjE)
    assume a: "resolve (files w) (argv ! 2) = None" "j = length (files w)"
      "files w2 = files w @ [\<lparr>links = [argv ! 2], data = [], perm = 420 AND NOT (umask w)\<rparr>]"
    have "resolve (files w') (argv ! 2) = Some j"
      unfolding res a(3) resolve_append using a(1,2) by simp
    moreover have "perm (files w' ! j) = 420 AND NOT (umask w)"
      unfolding 1(10) a(3) using a(2) by simp
    moreover have "length (files w') = Suc (length (files w))"
      unfolding 1(10) a(3) by simp
    ultimately show ?thesis using a(1,2) by (simp add: and_not_disjoint)
  next
    assume a: "resolve (files w) (argv ! 2) = Some j" "j < length (files w)"
      "files w2 = (files w)[j := (files w ! j)\<lparr>data := []\<rparr>]"
    have "resolve (files w') (argv ! 2) = Some j"
      unfolding res a(3) resolve_set_data by (rule a(1))
    moreover have "perm (files w' ! j) = perm (files w ! j)"
      unfolding 1(10) a(3) using a(2) by simp
    moreover have "length (files w') = length (files w)"
      unfolding 1(10) a(3) by simp
    moreover have "data (files w2 ! j) = []"
      unfolding a(3) using a(2) by simp
    ultimately show ?thesis using a(1,2) w2 by simp
  qed
qed

theorem destination_permissions_witness:
  "\<exists>w'. main [''files'', ''a'', ''b''] small_world = Some (0, w') \<and>
     resolve (files small_world) ''b'' = None \<and>
     (\<exists>j. resolve (files w') ''b'' = Some j \<and> perm (files w' ! j) = 420)"
proof -
  have "status_of (main [''files'', ''a'', ''b''] small_world) = Some 0" by code_simp
  then obtain w' where r: "main [''files'', ''a'', ''b''] small_world = Some (0, w')"
    by (auto dest: status_ofD)
  have n: "resolve (files small_world) ''b'' = None" by code_simp
  have u: "umask small_world AND 420 = 0" by code_simp
  from destination_permissions[OF r] n u r show ?thesis by auto
qed

text \<open>
  Claim C8 as stated fails for a destination that exists with other permission bits:
  copying \<open>a\<close> onto \<open>old\<close> exits with status 0 and \<open>old\<close> still has the bits 0600 (384).
\<close>

theorem existing_destination_keeps_mode:
  "status_of (main [''files'', ''a'', ''old''] small_world) = Some 0 \<and>
   files_of (main [''files'', ''a'', ''old''] small_world) =
     Some [\<lparr>links = [''/dev/tty''], data = [], perm = 400\<rparr>,
           \<lparr>links = [''a''], data = [1, 2, 3], perm = 420\<rparr>,
           \<lparr>links = [''old''], data = [1, 2, 3], perm = 384\<rparr>] \<and>
   (384 :: 32 word) \<noteq> 420"
  by code_simp

text \<open>
  The copy itself: after a run that exits with status 0 and in which no read failed, the
  file the destination path refers to has the bytes of the file the source path refers
  to, and a source that is not the destination file has the bytes it had before.
\<close>

lemma copy_is_faithful:
  assumes run: "main argv w = Some (0, w')"
    and tr: "trace w' = trace w @ evs"
    and noerr: "\<forall>fd c. EvRead fd c (- 1) \<notin> set evs"
  shows "\<exists>i j. resolve (files w) (argv ! 1) = Some i \<and>
           resolve (files w') (argv ! 1) = Some i \<and>
           resolve (files w') (argv ! 2) = Some j \<and>
           data (files w' ! j) = data (files w' ! i) \<and>
           (i \<noteq> j \<longrightarrow> data (files w' ! i) = data (files w ! i))"
  using run
proof (cases rule: main_finished_cases)
  case (1 fs fd i j w1 w2 levs r d e)
  have "evs = [EvOpen (argv ! 1) O_RDONLY fs, EvOpen (argv ! 2) (O_WRONLY OR O_CREAT OR O_TRUNC) fd] @
       levs @ (if r = - 1 then [EvPerror ''Error al leer'' e] else []) @
       [EvClose fs 0, EvClose fd 0, EvPrintf (''Copia completada exitosamente.'' @ [newline])]"
    using tr 1(8) by simp
  then have "EvRead fs BUFFER_SIZE r \<in> set evs"
    using loop_trace_last_read[OF 1(7) refl] by simp
  with noerr 1(6) have r: "r = 0" by auto
  have d: "d = data (files w2 ! i)" using 1(11) r by simp
  have res: "resolve (files w') p = resolve (files w2) p" for p
    unfolding 1(10) by (rule resolve_set_data)
  from 1(5) show ?thesis
  proof (elim disjE conjE)
    assume a: "resolve (files w) (argv ! 2) = None" "j = length (files w)"
      "files w2 = files w @ [\<lparr>links = [argv ! 2], data = [], perm = 420 AND NOT (umask w)\<rparr>]"
    have ij: "i \<noteq> j" using a(2) 1(4) by simp
    have "resolve (files w') (argv ! 2) = Some j"
      unfolding res a(3) resolve_append using a(1,2) by simp
    moreover have "resolve (files w') (argv ! 1) = Some i"
      unfolding res a(3) resolve_append using 1(3) by simp
    moreover have "data (files w' ! i) = data (files w ! i)"
      unfolding 1(10) a(3) using ij 1(4) by (simp add: nth_append)
    moreover have "data (files w' ! j) = data (files w ! i)"
      unfolding 1(10) d a(3) using a(2) 1(4) by (simp add: nth_append)
    ultimately show ?thesis using 1(3) by simp
  next
    assume a: "resolve (files w) (argv ! 2) = Some j" "j < length (files w)"
      "files w2 = (files w)[j := (files w ! j)\<lparr>data := []\<rparr>]"
    have "resolve (files w') (argv ! 2) = Some j"
      unfolding res a(3) resolve_set_data by (rule a(1))
    moreover have "resolve (files w') (argv ! 1) = Some i"
      unfolding res a(3) resolve_set_data by (rule 1(3))
    moreover have "i \<noteq> j \<Longrightarrow> data (files w' ! i) = data (files w ! i)"
      unfolding 1(10) a(3) by simp
    moreover have "data (files w' ! j) = data (files w' ! i)"
    proof (cases "i = j")
      case True
      then show ?thesis by simp
    next
      case False
      then show ?thesis unfolding 1(10) d a(3) using a(2) by simp
    qed
    ultimately show ?thesis using 1(3) by simp
  qed
qed


text \<open>
  A run in which nothing fails. When no read and no write is scripted to fail and both
  opens succeed, the loop reaches the end of the source, whatever its length and however
  many rounds of \<open>BUFFER_SIZE\<close> bytes that takes; the copier exits with status 0 and the
  destination has the bytes of the source.
\<close>

lemma sys_open_scripts:
  "read_faults (snd (sys_open p fl m w)) = read_faults w"
  "write_faults (snd (sys_open p fl m w)) = write_faults w"
  by (simp_all add: sys_open_def Let_def split: option.splits)

lemma sys_read_plain:
  assumes "fdt w fs = Some f" "oflags f AND O_ACCMODE \<noteq> O_WRONLY" "ino f < length (files w)"
    and "read_faults w = []"
  shows "\<exists>w1. sys_read fs c w =
           (int (min c (length (data (files w ! ino f)) - pos f)),
            take (min c (length (data (files w ! ino f)) - pos f))
              (drop (pos f) (data (files w ! ino f))), w1) \<and>
         files w1 = files w \<and>
         fdt w1 = (fdt w)(fs \<mapsto> f\<lparr>pos := pos f + min c (length (data (files w ! ino f)) - pos f)\<rparr>) \<and>
         read_faults w1 = [] \<and> write_faults w1 = write_faults w"
  using assms by (simp add: sys_read_def Let_def read_err_def read_len_def)

lemma sys_write_plain:
  assumes "fdt w fd = Some g" "oflags g AND O_ACCMODE \<noteq> O_RDONLY" "ino g < length (files w)"
    and "write_faults w = []"
  shows "\<exists>w1. sys_write fd buf c w = (int c, w1) \<and>
         files w1 = (files w)[ino g := (files w ! ino g)
                       \<lparr>data := write_at (data (files w ! ino g)) (pos g) (take c buf)\<rparr>] \<and>
         fdt w1 = (fdt w)(fd \<mapsto> g\<lparr>pos := pos g + c\<rparr>) \<and>
         read_faults w1 = read_faults w \<and> write_faults w1 = []"
  using assms by (simp add: sys_write_def Let_def write_err_def write_len_def)

lemma copy_loop_plain:
  assumes "fdt w fs = Some f" "fdt w fd = Some g" "fs \<noteq> fd"
    and "oflags f = O_RDONLY" "oflags g = O_WRONLY OR O_CREAT OR O_TRUNC"
    and "ino f < length (files w)" "ino g < length (files w)"
    and "ino f \<noteq> ino g \<or> data (files w ! ino f) = []"
    and "read_faults w = []" "write_faults w = []"
  shows "\<exists>w'. copy_loop fs fd w = Some (Finished 0 w')"
  using assms
proof (induction "length (data (files w ! ino f)) - pos f" arbitrary: w f g rule: less_induct)
  case less
  note p = less.prems
  have rd: "oflags f AND O_ACCMODE \<noteq> O_WRONLY" using p(4) flags_rd by simp
  have wr: "oflags g AND O_ACCMODE \<noteq> O_RDONLY" using p(5) flags_wr by simp
  let ?src = "data (files w ! ino f)"
  let ?n = "min BUFFER_SIZE (length ?src - pos f)"
  let ?buf = "take ?n (drop (pos f) ?src)"
  from sys_read_plain[OF p(1) rd p(6) p(9), of BUFFER_SIZE] obtain w1 where
    r: "sys_read fs BUFFER_SIZE w = (int ?n, ?buf, w1)"
    and f1: "files w1 = files w"
    and d1: "fdt w1 = (fdt w)(fs \<mapsto> f\<lparr>pos := pos f + ?n\<rparr>)"
    and s1: "read_faults w1 = []" "write_faults w1 = write_faults w" by blast
  show ?case
  proof (cases "?n = 0")
    case True
    have "copy_loop fs fd w = Some (Finished 0 w1)"
      by (subst copy_loop.simps) (use r True in simp)
    then show ?thesis by blast
  next
    case False
    then have npos: "0 < ?n" by simp
    then have "?src \<noteq> []" by auto
    with p(8) have diff: "ino f \<noteq> ino g" by blast
    have g1: "fdt w1 fd = Some g" using d1 p(2,3) by simp
    have i1: "ino g < length (files w1)" using f1 p(7) by simp
    have wf1: "write_faults w1 = []" using s1 p(10) by simp
    from sys_write_plain[OF g1 wr i1 wf1, of ?buf ?n] obtain w2 where
      wq: "sys_write fd ?buf ?n w1 = (int ?n, w2)"
      and f2: "files w2 = (files w1)[ino g := (files w1 ! ino g)
                 \<lparr>data := write_at (data (files w1 ! ino g)) (pos g) (take ?n ?buf)\<rparr>]"
      and d2: "fdt w2 = (fdt w1)(fd \<mapsto> g\<lparr>pos := pos g + ?n\<rparr>)"
      and s2: "read_faults w2 = read_faults w1" "write_faults w2 = []" by blast
    let ?f' = "f\<lparr>pos := pos f + ?n\<rparr>" and ?g' = "g\<lparr>pos := pos g + ?n\<rparr>"
    have "\<exists>w'. copy_loop fs fd w2 = Some (Finished 0 w')"
    proof (rule less.hyps)
      have "data (files w2 ! ino f) = ?src" using f2 f1 diff by simp
      moreover have "length ?src - (pos f + ?n) < length ?src - pos f" using npos by arith
      ultimately show "length (data (files w2 ! ino ?f')) - pos ?f' < length ?src - pos f"
        by simp
      show "fdt w2 fs = Some ?f'" using d2 d1 p(3) by simp
      show "fdt w2 fd = Some ?g'" using d2 by simp
      show "ino ?f' \<noteq> ino ?g' \<or> data (files w2 ! ino ?f') = []" using diff by simp
      show "read_faults w2 = []" using s2 s1 by simp
      show "write_faults w2 = []" by (rule s2)
    qed (use p f1 f2 in simp_all)
    moreover have "copy_loop fs fd w = copy_loop fs fd w2"
      by (subst copy_loop.simps) (use r npos wq in simp)
    ultimately show ?thesis by simp
  qed
qed


lemma loop_trace_failed_read:
  assumes "loop_trace fs fd evs x" "x = Some r" "EvRead a c (- 1) \<in> set evs"
  shows "r = - 1"
  using assms by (induction rule: loop_trace.induct) auto

lemma copy_without_faults:
  assumes len: "length argv = 3" and nf: "read_faults w = []" "write_faults w = []"
    and o1: "fst (sys_open (argv ! 1) O_RDONLY 0 w) \<noteq> - 1"
    and o2: "fst (sys_open (argv ! 2) (O_WRONLY OR O_CREAT OR O_TRUNC) 420
                   (snd (sys_open (argv ! 1) O_RDONLY 0 w))) \<noteq> - 1"
  shows "\<exists>w' i j. main argv w = Some (0, w') \<and>
           resolve (files w) (argv ! 1) = Some i \<and>
           resolve (files w') (argv ! 1) = Some i \<and>
           resolve (files w') (argv ! 2) = Some j \<and>
           data (files w' ! j) = data (files w' ! i) \<and>
           (i \<noteq> j \<longrightarrow> data (files w' ! i) = data (files w ! i))"
  using len
proof (cases rule: main_cases[where w = w])
  case (src_failed w1)
  with o1 show ?thesis by simp
next
  case (dest_failed fs w1 w2 i)
  with o2 show ?thesis by simp
next
  case (opened fs fd w1 w2 i j)
  let ?f = "\<lparr>ino = i, pos = 0, oflags = O_RDONLY\<rparr>"
  let ?g = "\<lparr>ino = j, pos = 0, oflags = O_WRONLY OR O_CREAT OR O_TRUNC\<rparr>"
  have s2: "read_faults w2 = []" "write_faults w2 = []"
    using sys_open_scripts[of "argv ! 2" "O_WRONLY OR O_CREAT OR O_TRUNC" 420 w1]
      sys_open_scripts[of "argv ! 1" O_RDONLY 0 w] opened(1,2) nf by simp_all
  have "\<exists>w3. copy_loop fs fd w2 = Some (Finished 0 w3)"
  proof (rule copy_loop_plain[where f = ?f and g = ?g])
    show "fdt w2 fs = Some ?f" using opened(5,11) by simp
    show "fdt w2 fd = Some ?g" using opened(11) by simp
    show "ino ?f < length (files w2)" using opened(9,10) by auto
    show "ino ?g < length (files w2)" using opened(10) by auto
    show "ino ?f \<noteq> ino ?g \<or> data (files w2 ! ino ?f) = []"
      using opened(9,10) by (cases "i = j") auto
  qed (use opened(5) s2 in simp_all)
  then obtain w3 where l: "copy_loop fs fd w2 = Some (Finished 0 w3)" by blast
  from opened(5,6,7,9,10,11,13) show ?thesis
  proof (cases rule: main_opened)
    case (write_failed w' levs d)
    with l show ?thesis by simp
  next
    case (finished w' levs r d e w3')
    with l have r: "r = 0" by simp
    let ?evs = "[EvOpen (argv ! 1) O_RDONLY fs,
                 EvOpen (argv ! 2) (O_WRONLY OR O_CREAT OR O_TRUNC) fd] @ levs @
                [EvClose fs 0, EvClose fd 0,
                 EvPrintf (''Copia completada exitosamente.'' @ [newline])]"
    have t: "trace w' = trace w @ ?evs" using finished(4) opened(12) r by simp
    have "EvRead a c (- 1) \<notin> set ?evs" for a c
      using loop_trace_failed_read[OF finished(3) refl, of a c] r by auto
    then have "\<forall>a c. EvRead a c (- 1) \<notin> set ?evs" by blast
    from copy_is_faithful[OF finished(1) t this] finished(1) show ?thesis by blast
  qed
qed

end
